(* ===== verification/Rust_Prelude.thy ===== *)
theory Rust_Prelude imports Main "HOL-Library.Word" begin

text \<open>
  Shared vocabulary of the development: the machine integers of the Rust sources, the value a
  Rust computation ends with (a return or a panic), the byte views of an integer, and the generic
  lemmas on lists, options and words the components use.
\<close>

unbundle bit_operations_syntax

section \<open>Types\<close>

type_synonym u8 = "8 word"
type_synonym u16 = "16 word"
type_synonym u32 = "32 word"
type_synonym u64 = "64 word"
type_synonym u128 = "128 word"
type_synonym usize = "64 word"
type_synonym i32 = "32 word" \<comment> \<open>read by \<open>sint\<close>\<close>
type_synonym i64 = "64 word" \<comment> \<open>read by \<open>sint\<close>\<close>
type_synonym bytes = "u8 list"

text \<open>A Rust expression returns a value or panics.\<close>

datatype 'a outcome = Ret 'a | Panic

fun obind :: "'a outcome \<Rightarrow> ('a \<Rightarrow> 'b outcome) \<Rightarrow> 'b outcome" where
  "obind (Ret x) f = f x"
| "obind Panic f = Panic"

text \<open>
  Subtraction on unsigned integers: with overflow checks (a debug build, which is what the
  README's cargo run makes) it panics when the result would be negative, without them it wraps.
\<close>

definition rust_sub :: "bool \<Rightarrow> 'a::len word \<Rightarrow> 'a word \<Rightarrow> 'a word outcome" where
  "rust_sub checks a b = (if checks \<and> a < b then Panic else Ret (a - b))"

lemma rust_sub_Ret [simp]: "b \<le> a \<Longrightarrow> rust_sub checks a b = Ret (a - b)"
  by (auto simp: rust_sub_def not_less)

lemma rust_sub_Panic_iff [simp]: "rust_sub checks a b = Panic \<longleftrightarrow> checks \<and> a < b"
  by (simp add: rust_sub_def)

text \<open>Addition likewise.\<close>

definition rust_add :: "bool \<Rightarrow> 'a::len word \<Rightarrow> 'a word \<Rightarrow> 'a word outcome" where
  "rust_add checks a b = (if checks \<and> 2 ^ LENGTH('a) \<le> unat a + unat b then Panic else Ret (a + b))"

lemma rust_add_Ret [simp]: "unat a + unat b < 2 ^ LENGTH('a) \<Longrightarrow> rust_add checks a b = Ret (a + b :: 'a::len word)"
  by (simp add: rust_add_def)

text \<open>
  Errors are values. \<open>io_error\<close> is \<open>std::io::Error\<close>: its kind and its message; \<open>anyhow_error\<close> is what
  the functions with a \<open>ResultType\<close> return.
\<close>

datatype error_kind = InvalidData | InvalidInput | NotFound | OtherKind | OsKind int

datatype io_error = IoError error_kind string

datatype anyhow_error = Bail string | Io io_error | Elapsed | Encoding string

text \<open>
  \<open>std::net::SocketAddr\<close>: an IPv4 address is its four octets, an IPv6 address carries its flow label
  and scope.
\<close>

datatype socket_addr =
    V4 "u8 \<times> u8 \<times> u8 \<times> u8" u16
  | V6 u128 u16 u32 u32

section \<open>The byte view of an integer\<close>

text \<open>The little-endian bytes of a word, and the word little-endian bytes denote.\<close>

definition to_le_bytes :: "'a::len word \<Rightarrow> bytes" where
  "to_le_bytes w = map (\<lambda>i. ucast (drop_bit (8 * i) w)) [0..<LENGTH('a) div 8]"

primrec from_le_bytes :: "bytes \<Rightarrow> 'a::len word" where
  "from_le_bytes [] = 0"
| "from_le_bytes (b # bs) = (ucast b OR push_bit 8 (from_le_bytes bs))"

text \<open>
  Rust's \<open>to_ne_bytes\<close> and \<open>from_ne_bytes\<close> use the byte order of the machine; the model takes it as
  an argument.
\<close>

datatype endian = Little | Big

definition to_ne_bytes :: "endian \<Rightarrow> 'a::len word \<Rightarrow> bytes" where
  "to_ne_bytes e w = (case e of Little \<Rightarrow> to_le_bytes w | Big \<Rightarrow> rev (to_le_bytes w))"

definition from_ne_bytes :: "endian \<Rightarrow> bytes \<Rightarrow> 'a::len word" where
  "from_ne_bytes e bs = (case e of Little \<Rightarrow> from_le_bytes bs | Big \<Rightarrow> from_le_bytes (rev bs))"

lemma length_to_le_bytes [simp]: "length (to_le_bytes (w :: 'a::len word)) = LENGTH('a) div 8"
  by (simp add: to_le_bytes_def)

lemma length_to_ne_bytes [simp]: "length (to_ne_bytes e (w :: 'a::len word)) = LENGTH('a) div 8"
  by (cases e) (simp_all add: to_ne_bytes_def)

lemma bit_from_le_bytes:
  "bit (from_le_bytes bs :: 'a::len word) n \<longleftrightarrow>
     n < LENGTH('a) \<and> n div 8 < length bs \<and> bit (bs ! (n div 8)) (n mod 8)"
proof (induction bs arbitrary: n)
  case Nil
  then show ?case by simp
next
  case (Cons b bs)
  show ?case
  proof (cases "n < 8")
    case True
    then show ?thesis by (auto simp: bit_or_iff bit_ucast_iff bit_push_bit_iff)
  next
    case False
    then obtain m where m: "n = m + 8" by (metis add.commute le_Suc_ex not_less)
    have "\<not> bit b n" using False by (simp add: bit_word.rep_eq)
    moreover have "n div 8 = Suc (m div 8)" using m by simp
    moreover have "n mod 8 = m mod 8" using m by simp
    ultimately show ?thesis using Cons.IH [of m] m
      by (auto simp: bit_or_iff bit_ucast_iff bit_push_bit_iff)
  qed
qed

lemma nth_to_le_bytes:
  "i < LENGTH('a) div 8 \<Longrightarrow> to_le_bytes (w :: 'a::len word) ! i = ucast (drop_bit (8 * i) w)"
  by (simp add: to_le_bytes_def)

lemma from_to_le_bytes [simp]:
  assumes "8 dvd LENGTH('a::len)"
  shows "from_le_bytes (to_le_bytes (w :: 'a word)) = w"
proof (rule bit_word_eqI)
  fix n assume n: "n < LENGTH('a)"
  then have "n div 8 < LENGTH('a) div 8" using assms by (auto simp: elim!: dvdE)
  then show "bit (from_le_bytes (to_le_bytes w) :: 'a word) n = bit w n"
    using n by (simp add: bit_from_le_bytes nth_to_le_bytes bit_ucast_iff bit_drop_bit_eq)
qed

lemma to_from_le_bytes:
  assumes "8 * length bs = LENGTH('a::len)"
  shows "to_le_bytes (from_le_bytes bs :: 'a word) = bs"
proof (rule nth_equalityI)
  show "length (to_le_bytes (from_le_bytes bs :: 'a word)) = length bs"
    using assms by (simp add: div_mult_self1_is_m [symmetric])
next
  fix i assume "i < length (to_le_bytes (from_le_bytes bs :: 'a word))"
  then have i: "i < length bs" and i': "i < LENGTH('a) div 8" using assms by auto
  show "to_le_bytes (from_le_bytes bs :: 'a word) ! i = bs ! i"
  proof (rule bit_word_eqI)
    fix n assume n: "n < LENGTH(8)"
    have "8 * i + n < LENGTH('a)" using i n assms by simp
    then show "bit (to_le_bytes (from_le_bytes bs :: 'a word) ! i) n = bit (bs ! i) n"
      using i i' n by (simp add: nth_to_le_bytes bit_ucast_iff bit_drop_bit_eq bit_from_le_bytes)
  qed
qed

lemma from_to_ne_bytes [simp]:
  "8 dvd LENGTH('a::len) \<Longrightarrow> from_ne_bytes e (to_ne_bytes e (w :: 'a word)) = w"
  by (cases e) (simp_all add: to_ne_bytes_def from_ne_bytes_def)

lemma to_from_ne_bytes:
  "8 * length bs = LENGTH('a::len) \<Longrightarrow> to_ne_bytes e (from_ne_bytes e bs :: 'a word) = bs"
  by (cases e) (simp_all add: to_ne_bytes_def from_ne_bytes_def to_from_le_bytes)

section \<open>Bits of small words\<close>

lemma bit_small:
  assumes "unat (w :: 'a::len word) < 2 ^ k" and "k \<le> n"
  shows "\<not> bit w n"
proof -
  have "w = take_bit k w" using assms(1)
    by (metis take_bit_nat_eq_self unsigned_take_bit_eq word_unat_eq_iff)
  then show ?thesis using assms(2) by (metis bit_take_bit_iff not_less)
qed

lemma take_le_bytes_ucast:
  assumes "LENGTH('b::len) \<le> LENGTH('a::len)" "k \<le> LENGTH('b) div 8"
  shows "take k (to_le_bytes (ucast (w :: 'a word) :: 'b word)) = take k (to_le_bytes w)"
proof (rule nth_equalityI)
  have "LENGTH('b) div 8 \<le> LENGTH('a) div 8" using assms(1) by (rule div_le_mono)
  then show len: "length (take k (to_le_bytes (ucast w :: 'b word))) = length (take k (to_le_bytes w))"
    using assms by simp
  fix i assume "i < length (take k (to_le_bytes (ucast w :: 'b word)))"
  then have i: "i < k" "i < LENGTH('b) div 8" "i < LENGTH('a) div 8" using len by auto
  then have "8 * i + 8 \<le> LENGTH('b)" by linarith
  then show "take k (to_le_bytes (ucast w :: 'b word)) ! i = take k (to_le_bytes w) ! i"
    using i assms by (intro bit_word_eqI) (auto simp: nth_to_le_bytes bit_simps)
qed

lemma from_le_bytes_take:
  assumes "k \<le> LENGTH('a::len) div 8"
  shows "from_le_bytes (take k (to_le_bytes (w :: 'a word))) = take_bit (8 * k) w"
proof (rule bit_word_eqI)
  fix n assume n: "n < LENGTH('a)"
  have "n div 8 < k \<longleftrightarrow> n < 8 * k" by auto
  then show "bit (from_le_bytes (take k (to_le_bytes w)) :: 'a word) n = bit (take_bit (8 * k) w) n"
    using n assms by (auto simp: bit_from_le_bytes nth_to_le_bytes bit_simps)
qed

lemma bit_3_int: "bit (3 :: int) n \<longleftrightarrow> n < 2"
proof -
  have "(3 :: int) = mask 2" by (simp add: mask_eq_exp_minus_1)
  then show ?thesis by (metis bit_mask_iff possible_bit_int)
qed

lemma unat_less: "unat (w :: 'a::len word) < 2 ^ LENGTH('a)"
  by (rule unsigned_less)

lemma unat_less_bit:
  assumes "\<And>n. k \<le> n \<Longrightarrow> \<not> bit (w :: 'a::len word) n"
  shows "unat w < 2 ^ k"
proof -
  have "take_bit k w = w" by (rule bit_word_eqI) (metis assms bit_take_bit_iff not_less)
  then show ?thesis by (metis take_bit_nat_less_exp unsigned_take_bit_eq)
qed

section \<open>Lists and lengths\<close>

lemma unat_of_nat_small: "n < 2 ^ LENGTH('a) \<Longrightarrow> unat (word_of_nat n :: 'a::len word) = n"
  by (simp add: unsigned_of_nat take_bit_nat_eq_self)

lemma take_eq_map_nth: "k \<le> length xs \<Longrightarrow> take k xs = map ((!) xs) [0..<k]"
  by (rule nth_equalityI) auto

section \<open>Strings\<close>

text \<open>
  A Rust string is a \<open>string\<close>; its characters are modelled up to code point 255. \<open>split_on\<close> is
  \<open>str::split\<close> with a one-character pattern, \<open>trim\<close> is \<open>str::trim\<close>.
\<close>

fun split_on :: "char \<Rightarrow> string \<Rightarrow> string list" where
  "split_on c [] = [[]]"
| "split_on c (x # xs) =
     (if x = c then [] # split_on c xs
      else (case split_on c xs of [] \<Rightarrow> [[x]] | p # ps \<Rightarrow> (x # p) # ps))"

definition is_whitespace :: "char \<Rightarrow> bool" where
  "is_whitespace ch \<longleftrightarrow>
     (let n = of_char ch :: nat in 9 \<le> n \<and> n \<le> 13 \<or> n = 32 \<or> n = 0x85 \<or> n = 0xA0)"

definition trim :: "string \<Rightarrow> string" where
  "trim s = rev (dropWhile is_whitespace (rev (dropWhile is_whitespace s)))"

lemma split_on_not_Nil [simp]: "split_on c s \<noteq> []"
  by (induction s) (auto split: list.splits)

lemma split_on_none: "c \<notin> set s \<Longrightarrow> split_on c s = [s]"
  by (induction s) auto

lemma split_on_append: "c \<notin> set s \<Longrightarrow> split_on c (s @ c # t) = s # split_on c t"
  by (induction s) auto

lemma set_split_on: "p \<in> set (split_on c s) \<Longrightarrow> c \<notin> set p \<and> set p \<subseteq> set s"
proof (induction s arbitrary: p)
  case (Cons x xs)
  then show ?case by (cases "split_on c xs") (fastforce split: if_splits)+
qed simp

end
