(* ===== verification/Incremental.thy ===== *)
theory Incremental imports Main begin

text \<open>
  The contract between a decoder that is fed bytes as they arrive and the transport that feeds it.
  A decoder is called with its state and the buffer; it reports an error, an item, or that it needs
  more input. The laws say what more bytes behind the buffer change; from them it follows that the
  items do not depend on how the network cut the byte stream into chunks.
\<close>

text \<open>
  The transport appends each chunk to the buffer and then drains it. It stops at the first error.
\<close>

type_synonym ('s, 'b, 'e, 'm) drained = "'m list \<times> 'e option \<times> 's \<times> 'b list"

fun feed :: "('s \<Rightarrow> 'b list \<Rightarrow> ('s, 'b, 'e, 'm) drained) \<Rightarrow> 's \<Rightarrow> 'b list \<Rightarrow> 'b list list \<Rightarrow>
    ('s, 'b, 'e, 'm) drained" where
  "feed drain s buf [] = ([], None, s, buf)"
| "feed drain s buf (c # cs) =
     (case drain s (buf @ c) of
        (ms, Some e, s', buf') \<Rightarrow> (ms, Some e, s', buf')
      | (ms, None, s', buf') \<Rightarrow> (let (ns, r) = feed drain s' buf' cs in (ms @ ns, r)))"

definition items :: "('s, 'b, 'e, 'm) drained \<Rightarrow> 'm list \<times> 'e option" where
  "items r = (fst r, fst (snd r))"

locale incremental_decoder =
  fixes dec :: "'s \<Rightarrow> 'b list \<Rightarrow> ('e + 'm option) \<times> 's \<times> 'b list"
    and ok :: "'s \<Rightarrow> bool"
    and weight :: "'s \<Rightarrow> 'b list \<Rightarrow> nat"
    and drain :: "'s \<Rightarrow> 'b list \<Rightarrow> ('s, 'b, 'e, 'm) drained"
  assumes ok_dec: "ok s \<Longrightarrow> dec s src = (r, s', src') \<Longrightarrow> ok s'"
    and progress: "ok s \<Longrightarrow> dec s src = (Inr (Some m), s', src') \<Longrightarrow> weight s' src' < weight s src"
    and settled: "ok s \<Longrightarrow> dec s src = (r, s', src') \<Longrightarrow> r \<noteq> Inr None \<Longrightarrow>
      dec s (src @ suf) = (r, s', src' @ suf)"
    and resume: "ok s \<Longrightarrow> dec s src = (Inr None, s', src') \<Longrightarrow> dec s (src @ suf) = dec s' (src' @ suf)"
    and drain_step: "ok s \<Longrightarrow> drain s src =
      (case dec s src of
         (Inl e, s', src') \<Rightarrow> ([], Some e, s', src')
       | (Inr (Some m), s', src') \<Rightarrow> (let (ms, r) = drain s' src' in (m # ms, r))
       | (Inr None, s', src') \<Rightarrow> ([], None, s', src'))"
begin

lemma drain_error [simp]: "ok s \<Longrightarrow> dec s src = (Inl e, s', src') \<Longrightarrow> drain s src = ([], Some e, s', src')"
  by (simp add: drain_step)

lemma drain_wait [simp]: "ok s \<Longrightarrow> dec s src = (Inr None, s', src') \<Longrightarrow> drain s src = ([], None, s', src')"
  by (simp add: drain_step)

lemma drain_item:
  "ok s \<Longrightarrow> dec s src = (Inr (Some m), s', src') \<Longrightarrow>
     drain s src = (let (ms, r) = drain s' src' in (m # ms, r))"
  by (simp add: drain_step)

text \<open>Induction along a drain.\<close>

lemma drain_induct [consumes 1, case_names error wait item]:
  assumes "ok s"
    and error: "\<And>s src e s' src'. ok s \<Longrightarrow> dec s src = (Inl e, s', src') \<Longrightarrow> P s src"
    and wait: "\<And>s src s' src'. ok s \<Longrightarrow> dec s src = (Inr None, s', src') \<Longrightarrow> P s src"
    and item: "\<And>s src m s' src'. ok s \<Longrightarrow> dec s src = (Inr (Some m), s', src') \<Longrightarrow> ok s' \<Longrightarrow>
      P s' src' \<Longrightarrow> P s src"
  shows "P s src"
  using assms(1)
proof (induction "weight s src" arbitrary: s src rule: less_induct)
  case less
  obtain r s' src' where d: "dec s src = (r, s', src')" by (cases "dec s src") auto
  consider (e) e where "r = Inl e" | (n) "r = Inr None" | (m) m where "r = Inr (Some m)"
    by (cases r; cases "projr r"; force)
  then show ?case
  proof cases
    case e
    then show ?thesis using d less.prems error by blast
  next
    case n
    then show ?thesis using d less.prems wait by blast
  next
    case (m x)
    then have d': "dec s src = (Inr (Some x), s', src')" using d by simp
    have "ok s'" using ok_dec [OF less.prems d] .
    moreover have "weight s' src' < weight s src" by (rule progress [OF less.prems d'])
    ultimately show ?thesis using item [OF less.prems d'] less.hyps by blast
  qed
qed

lemma ok_drain: "ok s \<Longrightarrow> drain s src = (ms, e, s', src') \<Longrightarrow> ok s'"
proof (induction s src arbitrary: ms rule: drain_induct)
  case (item s src m s1 src1)
  then show ?case by (cases "drain s1 src1") (auto simp: drain_item)
qed (auto intro: ok_dec)

lemma drain_append_wait:
  "ok s \<Longrightarrow> drain s src = (ms, None, s', src') \<Longrightarrow>
     drain s (src @ suf) = (let (ns, r) = drain s' (src' @ suf) in (ms @ ns, r))"
proof (induction s src arbitrary: ms rule: drain_induct)
  case (error s src e s1 src1)
  then show ?case by simp
next
  case (wait s src s1 src1)
  then have "ms = []" "s1 = s'" "src1 = src'" by auto
  moreover have "ok s'" using wait ok_dec \<open>s1 = s'\<close> by blast
  ultimately show ?case using wait resume [OF wait(1,2), of suf]
    by (simp add: drain_step [of s] drain_step [of s'] Let_def)
next
  case (item s src m s1 src1)
  then obtain ms1 where "drain s1 src1 = (ms1, None, s', src')" "ms = m # ms1"
    by (cases "drain s1 src1") (auto simp: drain_item)
  with item settled [OF item(1,2), of suf] show ?case
    by (auto simp: drain_item Let_def split: prod.splits)
qed

lemma drain_append_error:
  "ok s \<Longrightarrow> drain s src = (ms, Some e, s', src') \<Longrightarrow>
     drain s (src @ suf) = (ms, Some e, s', src' @ suf)"
proof (induction s src arbitrary: ms rule: drain_induct)
  case (error s src e1 s1 src1)
  then show ?case using settled [OF error(1,2), of suf] by simp
next
  case (item s src m s1 src1)
  then obtain ms1 where "drain s1 src1 = (ms1, Some e, s', src')" "ms = m # ms1"
    by (cases "drain s1 src1") (auto simp: drain_item)
  with item settled [OF item(1,2), of suf] show ?case
    by (auto simp: drain_item)
qed simp

text \<open>A drained decoder waits: draining again yields nothing.\<close>

lemma drain_idle: "ok s \<Longrightarrow> drain s src = (ms, None, s', src') \<Longrightarrow> drain s' src' = ([], None, s', src')"
proof (induction s src arbitrary: ms rule: drain_induct)
  case (wait s src s1 src1)
  then have "dec s' src' = (Inr None, s', src')" using resume [OF wait(1,2), of "[]"] by simp
  moreover have "ok s'" using wait by (auto intro: ok_dec)
  ultimately show ?case by simp
next
  case (item s src m s1 src1)
  then show ?case by (cases "drain s1 src1") (auto simp: drain_item)
qed simp

text \<open>Feeding chunk by chunk yields what draining the whole input yields.\<close>

lemma feed_items:
  assumes "ok s" "drain s buf = ([], None, s, buf)"
  shows "items (feed drain s buf cs) = items (drain s (buf @ concat cs))"
  using assms
proof (induction cs arbitrary: s buf)
  case Nil
  then show ?case by (simp add: items_def)
next
  case (Cons c cs)
  obtain ms e s' buf' where d: "drain s (buf @ c) = (ms, e, s', buf')" by (metis prod_cases4)
  show ?case
  proof (cases e)
    case None
    with d have d: "drain s (buf @ c) = (ms, None, s', buf')" by simp
    have "items (feed drain s' buf' cs) = items (drain s' (buf' @ concat cs))"
      using Cons.IH ok_drain [OF Cons.prems(1) d] drain_idle [OF Cons.prems(1) d] by blast
    then show ?thesis using drain_append_wait [OF Cons.prems(1) d, of "concat cs"] d
      by (auto simp: items_def split: prod.splits)
  next
    case (Some err)
    with d have d: "drain s (buf @ c) = (ms, Some err, s', buf')" by simp
    then show ?thesis using drain_append_error [OF Cons.prems(1) d, of "concat cs"]
      by (simp add: items_def)
  qed
qed

text \<open>Without an error the final state and the left-over buffer agree as well.\<close>

lemma feed_drain:
  assumes "ok s" "drain s buf = ([], None, s, buf)"
    and "drain s (buf @ concat cs) = (ms, None, s', rest)"
  shows "feed drain s buf cs = (ms, None, s', rest)"
  using assms
proof (induction cs arbitrary: s buf ms)
  case Nil
  then show ?case by simp
next
  case (Cons c cs)
  obtain ns e s1 buf1 where d: "drain s (buf @ c) = (ns, e, s1, buf1)" by (metis prod_cases4)
  show ?case
  proof (cases e)
    case None
    with d have d: "drain s (buf @ c) = (ns, None, s1, buf1)" by simp
    obtain ms1 where "drain s1 (buf1 @ concat cs) = (ms1, None, s', rest)" "ms = ns @ ms1"
      using drain_append_wait [OF Cons.prems(1) d, of "concat cs"] Cons.prems(3)
      by (auto simp: Let_def split: prod.splits)
    then show ?thesis
      using Cons.IH [OF ok_drain [OF Cons.prems(1) d] drain_idle [OF Cons.prems(1) d]] d
      by simp
  next
    case (Some err)
    with d have d: "drain s (buf @ c) = (ns, Some err, s1, buf1)" by simp
    then show ?thesis using drain_append_error [OF Cons.prems(1) d, of "concat cs"] Cons.prems(3)
      by simp
  qed
qed

end

end
