(* ===== verification/Bytes_Codec.thy ===== *)
theory Bytes_Codec imports Rust_Prelude Incremental begin

text \<open>
  \<open>libs/hbb_common/src/bytes_codec.rs\<close>: the length-prefixed framing of every TCP stream. A frame is a
  header of one to four bytes, whose lowest two bits say how many bytes follow it in the header and
  whose other bits are the payload's length, and the payload. The decoder is incremental: it is
  called with whatever bytes have arrived and remembers in \<open>state\<close> whether a header has been read.
  \<open>BytesMut\<close> is a byte list; \<open>reserve\<close> only allocates and has no counterpart.
\<close>

section \<open>The codec's state\<close>

datatype decode_state = Head | Data usize

record bytes_codec =
  state :: decode_state
  raw :: bool
  max_packet_length :: usize

definition codec_new :: bytes_codec where
  "codec_new = \<lparr>state = Head, raw = False, max_packet_length = - 1\<rparr>"

definition codec_set_raw :: "bytes_codec \<Rightarrow> bytes_codec" where
  "codec_set_raw c = c\<lparr>raw := True\<rparr>"

definition set_max_packet_length :: "bytes_codec \<Rightarrow> usize \<Rightarrow> bytes_codec" where
  "set_max_packet_length c n = c\<lparr>max_packet_length := n\<rparr>"

section \<open>Decoding\<close>

text \<open>Each decoding function returns its result and the buffer it leaves.\<close>

definition decode_head :: "bytes_codec \<Rightarrow> bytes \<Rightarrow> (io_error + usize option) \<times> bytes" where
  "decode_head c src =
     (if src = [] then (Inr None, src)
      else
        let head_len = unat ((src ! 0 AND 3) + 1) in
        if length src < head_len then (Inr None, src)
        else
          let n = ucast (src ! 0) :: usize;
              n = (if head_len > 1 then n OR push_bit 8 (ucast (src ! 1)) else n);
              n = (if head_len > 2 then n OR push_bit 16 (ucast (src ! 2)) else n);
              n = (if head_len > 3 then n OR push_bit 24 (ucast (src ! 3)) else n);
              n = drop_bit 2 n
          in
            if n > max_packet_length c then (Inl (IoError InvalidData ''Too big packet''), src)
            else (Inr (Some n), drop head_len src))"

definition decode_data :: "bytes_codec \<Rightarrow> usize \<Rightarrow> bytes \<Rightarrow> (io_error + bytes option) \<times> bytes" where
  "decode_data c n src =
     (if length src < unat n then (Inr None, src)
      else (Inr (Some (take (unat n) src)), drop (unat n) src))"

text \<open>The second half of \<open>decode\<close>, once the payload's length is known.\<close>

definition decode_payload :: "bytes_codec \<Rightarrow> usize \<Rightarrow> bytes \<Rightarrow>
    (io_error + bytes option) \<times> bytes_codec \<times> bytes" where
  "decode_payload c n src =
     (case decode_data c n src of
        (Inl e, src') \<Rightarrow> (Inl e, c, src')
      | (Inr (Some data), src') \<Rightarrow> (Inr (Some data), c\<lparr>state := Head\<rparr>, src')
      | (Inr None, src') \<Rightarrow> (Inr None, c, src'))"

definition decode :: "bytes_codec \<Rightarrow> bytes \<Rightarrow> (io_error + bytes option) \<times> bytes_codec \<times> bytes" where
  "decode c src =
     (if raw c then
        if src \<noteq> [] then (Inr (Some src), c, []) else (Inr None, c, src)
      else
        case state c of
          Head \<Rightarrow>
            (case decode_head c src of
               (Inl e, src') \<Rightarrow> (Inl e, c, src')
             | (Inr (Some n), src') \<Rightarrow> decode_payload (c\<lparr>state := Data n\<rparr>) n src'
             | (Inr None, src') \<Rightarrow> (Inr None, c, src'))
        | Data n \<Rightarrow> decode_payload c n src)"

section \<open>Encoding\<close>

text \<open>Lengths are \<open>usize\<close> values; the shifts and casts are those of the source.\<close>

definition encode :: "bytes_codec \<Rightarrow> bytes \<Rightarrow> bytes \<Rightarrow> (io_error + unit) \<times> bytes" where
  "encode c data buf =
     (let len = word_of_nat (length data) :: usize in
      if raw c then (Inr (), buf @ data)
      else if length data \<le> 0x3F then
        (Inr (), buf @ [ucast (push_bit 2 len)] @ data)
      else if length data \<le> 0x3FFF then
        (Inr (), buf @ to_le_bytes (ucast (push_bit 2 len) OR 1 :: u16) @ data)
      else if length data \<le> 0x3FFFFF then
        let h = ucast (push_bit 2 len) OR 2 :: u32 in
        (Inr (), buf @ to_le_bytes (ucast (h AND 0xFFFF) :: u16) @ [ucast (drop_bit 16 h)] @ data)
      else if length data \<le> 0x3FFFFFFF then
        (Inr (), buf @ to_le_bytes (ucast (push_bit 2 len) OR 3 :: u32) @ data)
      else (Inl (IoError InvalidInput ''Overflow''), buf))"

section \<open>The header\<close>

text \<open>
  What the encoder writes before a payload of \<open>n\<close> bytes, as a function of \<open>n\<close> alone, and what the
  decoder reads off the front of a buffer.
\<close>

definition header_len :: "nat \<Rightarrow> nat" where
  "header_len n = (if n \<le> 0x3F then 1 else if n \<le> 0x3FFF then 2 else if n \<le> 0x3FFFFF then 3 else 4)"

definition header :: "nat \<Rightarrow> bytes" where
  "header n = take (header_len n)
     (to_le_bytes (push_bit 2 (word_of_nat n) OR word_of_nat (header_len n - 1) :: usize))"

lemma length_header [simp]: "length (header n) = header_len n"
  by (simp add: header_def header_len_def)

lemma header_len_bounds: "1 \<le> header_len n" "header_len n \<le> 4"
  by (simp_all add: header_len_def)

lemma to_le_bytes_u16: "to_le_bytes (ucast (w :: usize) :: u16) = take 2 (to_le_bytes w)"
  using take_le_bytes_ucast [where 'a = 64 and 'b = 16 and k = 2 and w = w] by simp

lemma to_le_bytes_u32: "to_le_bytes (ucast (w :: usize) :: u32) = take 4 (to_le_bytes w)"
  using take_le_bytes_ucast [where 'a = 64 and 'b = 32 and k = 4 and w = w] by simp

lemma ucast_OR_tag:
  "ucast (w OR 1 :: usize) = (ucast w OR 1 :: u16)"
  "ucast (w OR 2 :: usize) = (ucast w OR 2 :: u32)"
  "ucast (w OR 3 :: usize) = (ucast w OR 3 :: u32)"
  by (rule bit_word_eqI, auto simp: bit_simps)+

lemma take_le_bytes:
  "take 1 (to_le_bytes (w :: usize)) = [ucast w]"
  "take 3 (to_le_bytes (w :: usize)) = take 2 (to_le_bytes w) @ [ucast (drop_bit 16 w)]"
  by (simp_all add: to_le_bytes_def upt_rec)

lemma low_half: "ucast ((h :: u32) AND 0xFFFF) = (ucast h :: u16)"
proof (rule bit_word_eqI)
  have "(0xFFFF :: u32) = mask 16" by (simp add: mask_eq_exp_minus_1)
  then have "h AND 0xFFFF = take_bit 16 h" by (metis take_bit_eq_mask)
  then show "bit (ucast (h AND 0xFFFF) :: u16) n = bit (ucast h :: u16) n" if "n < LENGTH(16)" for n
    using that by (auto simp: bit_simps)
qed

lemma high_byte: "ucast (drop_bit 16 (ucast (w :: usize) :: u32)) = (ucast (drop_bit 16 w) :: u8)"
  by (rule bit_word_eqI) (auto simp: bit_simps)

lemma ucast_ucast_u16: "ucast (ucast (w :: usize) :: u32) = (ucast w :: u16)"
  by (rule bit_word_eqI) (auto simp: bit_simps)

lemma encode_frame:
  assumes "\<not> raw c" "length data \<le> 0x3FFFFFFF"
  shows "encode c data buf = (Inr (), buf @ header (length data) @ data)"
  using assms
  by (simp add: encode_def header_def header_len_def Let_def to_le_bytes_u16 to_le_bytes_u32
      ucast_OR_tag [symmetric] low_half high_byte take_le_bytes ucast_ucast_u16 take_le_bytes(1)[simplified])

definition announced_len :: "bytes \<Rightarrow> nat" where
  "announced_len src = unat (src ! 0 AND 3) + 1"

definition announced :: "bytes \<Rightarrow> usize" where
  "announced src = drop_bit 2 (from_le_bytes (take (announced_len src) src))"

lemma announced_len_bounds: "1 \<le> announced_len src" "announced_len src \<le> 4"
proof -
  have "src ! 0 AND 3 \<le> 3" by (rule word_and_le1)
  then show "announced_len src \<le> 4" by (simp add: announced_len_def word_le_nat_alt)
qed (simp add: announced_len_def)

lemma announced_len_word: "unat ((src ! 0 AND 3) + 1) = announced_len src"
proof -
  have "src ! 0 AND 3 \<le> 3" by (rule word_and_le1)
  then have "unat (src ! 0 AND 3) < 4" by (simp add: word_le_nat_alt)
  then show ?thesis by (simp add: announced_len_def unat_word_ariths)
qed

lemma decode_head_eq:
  "decode_head c src =
     (if src = [] \<or> length src < announced_len src then (Inr None, src)
      else if announced src > max_packet_length c then (Inl (IoError InvalidData ''Too big packet''), src)
      else (Inr (Some (announced src)), drop (announced_len src) src))"
proof (cases "src = [] \<or> length src < announced_len src")
  case True
  then show ?thesis by (auto simp: decode_head_def Let_def announced_len_word)
next
  case False
  let ?n = "announced_len src"
  consider "?n = 1" | "?n = 2" | "?n = 3" | "?n = 4"
    using announced_len_bounds [of src] by linarith
  then have "(let n = ucast (src ! 0) :: usize;
              n = (if ?n > 1 then n OR push_bit 8 (ucast (src ! 1)) else n);
              n = (if ?n > 2 then n OR push_bit 16 (ucast (src ! 2)) else n);
              n = (if ?n > 3 then n OR push_bit 24 (ucast (src ! 3)) else n)
           in n) = from_le_bytes (take ?n src)"
    using False
    by cases (auto simp: Let_def take_eq_map_nth Suc_le_eq upt_rec numeral_2_eq_2
        numeral_3_eq_3 push_bit_or ac_simps)
  then show ?thesis using False
    by (simp add: decode_head_def announced_len_word announced_def Let_def)
qed

lemma header_bits:
  fixes n :: nat
  defines "w \<equiv> push_bit 2 (word_of_nat n) OR word_of_nat (header_len n - 1) :: usize"
  assumes "n \<le> 0x3FFFFFFF"
  shows "ucast w AND (3 :: u8) = word_of_nat (header_len n - 1)"
    and "drop_bit 2 (take_bit (8 * header_len n) w) = word_of_nat n"
proof -
  define t :: usize where "t = word_of_nat (header_len n - 1)"
  have t4: "t < 4" by (simp add: t_def header_len_def)
  then have t: "\<not> bit t k" if "2 \<le> k" for k
    using that by (intro bit_small [where k = 2]) (auto simp: word_less_nat_alt)
  show "ucast w AND (3 :: u8) = word_of_nat (header_len n - 1)"
  proof -
    have "ucast w AND (3 :: u8) = ucast t"
      unfolding w_def t_def [symmetric]
      by (rule bit_word_eqI) (auto simp: bit_simps bit_3_int dest: t, (meson t not_less)?)
    also have "\<dots> = word_of_nat (header_len n - 1)"
      by (auto simp: t_def header_len_def)
    finally show ?thesis .
  qed
  have "unat (word_of_nat n :: usize) = n" using assms(2) by (simp add: unat_of_nat_small)
  moreover have "n < 2 ^ (8 * header_len n - 2)" using assms(2) by (simp add: header_len_def)
  ultimately have n: "\<not> bit (word_of_nat n :: usize) k" if "8 * header_len n - 2 \<le> k" for k
    using that by (intro bit_small [where k = "8 * header_len n - 2"]) auto
  have len: "8 * header_len n \<le> 64" using header_len_bounds [of n] by simp
  show "drop_bit 2 (take_bit (8 * header_len n) w) = word_of_nat n"
    unfolding w_def t_def [symmetric]
  proof (rule bit_word_eqI)
    fix k assume "k < LENGTH(64)"
    show "bit (drop_bit 2 (take_bit (8 * header_len n) (push_bit 2 (word_of_nat n) OR t))) k =
        bit (word_of_nat n :: usize) k"
    proof (cases "k + 2 < 8 * header_len n")
      case True
      then show ?thesis using len t [of "k + 2"] by (simp add: bit_simps)
    next
      case False
      then show ?thesis using n [of k] by (simp add: bit_simps)
    qed
  qed
qed

lemma header_nth_0: "header n ! 0 =
    ucast (push_bit 2 (word_of_nat n) OR word_of_nat (header_len n - 1) :: usize)"
  using header_len_bounds [of n] by (simp add: header_def nth_to_le_bytes)

lemma header_not_Nil [simp]: "header n \<noteq> []"
  using length_header [of n] header_len_bounds [of n] by (metis list.size(3) not_one_le_zero)

lemma announced_len_header:
  assumes "n \<le> 0x3FFFFFFF"
  shows "announced_len (header n @ rest) = header_len n"
  using header_bits(1) [OF assms] header_len_bounds [of n]
  by (simp add: announced_len_def nth_append header_nth_0 unat_of_nat_small del: of_nat_diff)

lemma announced_header:
  assumes "n \<le> 0x3FFFFFFF"
  shows "announced (header n @ rest) = word_of_nat n"
proof -
  have "announced (header n @ rest) = drop_bit 2 (from_le_bytes (header n))"
    by (simp add: announced_def announced_len_header [OF assms])
  also have "from_le_bytes (header n) =
      take_bit (8 * header_len n) (push_bit 2 (word_of_nat n) OR word_of_nat (header_len n - 1) :: usize)"
    using header_len_bounds [of n] by (simp only: header_def) (rule from_le_bytes_take, simp)
  finally show ?thesis by (simp only: header_bits(2) [OF assms])
qed

lemma announced_len_take: "0 < k \<Longrightarrow> src \<noteq> [] \<Longrightarrow> announced_len (take k src) = announced_len src"
  by (simp add: announced_len_def)

lemma decode_head_header:
  assumes "n \<le> 0x3FFFFFFF"
  shows "decode_head c (header n @ rest) =
     (if word_of_nat n > max_packet_length c
      then (Inl (IoError InvalidData ''Too big packet''), header n @ rest)
      else (Inr (Some (word_of_nat n)), rest))"
  using assms by (simp add: decode_head_eq announced_len_header announced_header)

lemma decode_frame:
  assumes "\<not> raw c" "state c = Head" "length d \<le> 0x3FFFFFFF"
    and "word_of_nat (length d) \<le> max_packet_length c"
  shows "decode c (header (length d) @ d @ rest) = (Inr (Some d), c, rest)"
  using assms
  by (simp add: decode_def decode_head_header decode_payload_def decode_data_def unat_of_nat_small)

text \<open>The decoder's contract: what \<open>decode\<close> does with more bytes behind the buffer.\<close>

lemma announced_len_append: "src \<noteq> [] \<Longrightarrow> announced_len (src @ suf) = announced_len src"
  by (simp add: announced_len_def nth_append)

lemma announced_append:
  "src \<noteq> [] \<Longrightarrow> announced_len src \<le> length src \<Longrightarrow> announced (src @ suf) = announced src"
  by (simp add: announced_def announced_len_append)

lemma decode_head_append:
  assumes "decode_head c src = (r, src')" "r \<noteq> Inr None"
  shows "decode_head c (src @ suf) = (r, src' @ suf)"
  using assms
  by (auto simp: decode_head_eq announced_len_append announced_append not_less split: if_splits)

lemma decode_head_more: "decode_head c src = (Inr None, src') \<Longrightarrow> src' = src"
  by (auto simp: decode_head_eq split: if_splits)

lemma decode_data_append:
  assumes "decode_data c n src = (r, src')" "r \<noteq> Inr None"
  shows "decode_data c n (src @ suf) = (r, src' @ suf)"
  using assms by (auto simp: decode_data_def split: if_splits)

lemma decode_payload_append:
  assumes "decode_payload c n src = (r, c', src')" "r \<noteq> Inr None"
  shows "decode_payload c n (src @ suf) = (r, c', src' @ suf)"
  using assms by (auto simp: decode_payload_def decode_data_def split: if_splits)

lemma decode_payload_more:
  "decode_payload c n src = (Inr None, c', src') \<Longrightarrow> c' = c \<and> src' = src"
  by (auto simp: decode_payload_def decode_data_def split: if_splits)

lemma decode_Head:
  "\<not> raw c \<Longrightarrow> state c = Head \<Longrightarrow> decode c src =
     (case decode_head c src of
        (Inl e, src') \<Rightarrow> (Inl e, c, src')
      | (Inr (Some n), src') \<Rightarrow> decode_payload (c\<lparr>state := Data n\<rparr>) n src'
      | (Inr None, src') \<Rightarrow> (Inr None, c, src'))"
  by (simp add: decode_def)

lemma decode_Data: "\<not> raw c \<Longrightarrow> state c = Data n \<Longrightarrow> decode c src = decode_payload c n src"
  by (simp add: decode_def)

lemma decode_append:
  assumes "\<not> raw c" "decode c src = (r, c', src')" "r \<noteq> Inr None"
  shows "decode c (src @ suf) = (r, c', src' @ suf)"
proof (cases "state c")
  case (Data n)
  then show ?thesis using assms by (simp add: decode_Data decode_payload_append)
next
  case Head
  obtain rh srch where h: "decode_head c src = (rh, srch)" by (cases "decode_head c src")
  have "rh \<noteq> Inr None" using h assms by (auto simp: decode_Head [OF assms(1) Head])
  then have "decode_head c (src @ suf) = (rh, srch @ suf)" by (rule decode_head_append [OF h])
  then show ?thesis using h assms Head \<open>rh \<noteq> Inr None\<close>
    by (cases rh) (auto simp: decode_Head decode_payload_append)
qed

lemma decode_more:
  assumes "\<not> raw c" "decode c src = (Inr None, c', src')"
  shows "decode c (src @ suf) = decode c' (src' @ suf)"
proof (cases "state c")
  case (Data n)
  then show ?thesis using assms by (auto simp: decode_Data dest!: decode_payload_more)
next
  case Head
  obtain rh srch where h: "decode_head c src = (rh, srch)" by (cases "decode_head c src")
  show ?thesis
  proof (cases "rh = Inr None")
    case True
    then show ?thesis using h assms decode_head_more [of c src srch]
      by (auto simp: decode_Head [OF assms(1) Head])
  next
    case False
    then have "decode_head c (src @ suf) = (rh, srch @ suf)" by (rule decode_head_append [OF h])
    moreover obtain n where n: "rh = Inr (Some n)"
      using h assms False by (cases rh) (auto simp: decode_Head [OF assms(1) Head])
    moreover have "decode_payload (c\<lparr>state := Data n\<rparr>) n srch = (Inr None, c', src')"
      using h assms n by (simp add: decode_Head [OF assms(1) Head])
    then have "c' = c\<lparr>state := Data n\<rparr>" "src' = srch" by (auto dest: decode_payload_more)
    ultimately show ?thesis using assms(1)
      by (simp add: decode_Head [OF assms(1) Head] decode_Data)
  qed
qed

lemma decode_raw: "decode c src = (r, c', src') \<Longrightarrow> raw c' = raw c"
  by (auto simp: decode_def decode_payload_def decode_data_def
      split: if_splits decode_state.splits prod.splits sum.splits option.splits)

definition pending :: "bytes_codec \<Rightarrow> bytes \<Rightarrow> nat" where
  "pending c src = 2 * length src + (case state c of Head \<Rightarrow> 0 | Data _ \<Rightarrow> 1)"

lemma decode_payload_Some:
  "decode_payload c n src = (Inr (Some m), c', src') \<longleftrightarrow>
     unat n \<le> length src \<and> m = take (unat n) src \<and> c' = c\<lparr>state := Head\<rparr> \<and> src' = drop (unat n) src"
  by (auto simp: decode_payload_def decode_data_def)

lemma decode_head_Some:
  "decode_head c src = (Inr (Some n), src') \<longleftrightarrow>
     src \<noteq> [] \<and> announced_len src \<le> length src \<and> n = announced src \<and>
     n \<le> max_packet_length c \<and> src' = drop (announced_len src) src"
  by (auto simp: decode_head_eq)

lemma decode_SomeE:
  assumes "decode c src = (Inr (Some m), c', src')"
  obtains (Raw) "raw c" "src \<noteq> []" "m = src" "c' = c" "src' = []"
  | (Resumed) n where "\<not> raw c" "state c = Data n" "unat n \<le> length src" "m = take (unat n) src"
      "src' = drop (unat n) src" "c' = c\<lparr>state := Head\<rparr>"
  | (Whole) n where "\<not> raw c" "state c = Head" "src \<noteq> []" "n = announced src"
      "n \<le> max_packet_length c" "announced_len src + unat n \<le> length src"
      "m = take (unat n) (drop (announced_len src) src)"
      "src' = drop (announced_len src + unat n) src" "c' = c\<lparr>state := Head\<rparr>"
proof (cases "raw c")
  case True
  then show ?thesis using assms by (intro Raw) (auto simp: decode_def split: if_splits)
next
  case False
  show ?thesis
  proof (cases "state c")
    case (Data n)
    show ?thesis
      by (rule Resumed [OF False Data]) (use False Data assms in \<open>auto simp: decode_Data decode_payload_Some\<close>)
  next
    case Head
    obtain rh srch where h: "decode_head c src = (rh, srch)" by (cases "decode_head c src")
    obtain n where n: "rh = Inr (Some n)"
      using h assms False Head by (cases rh) (auto simp: decode_Head split: option.splits)
    then have "decode_payload (c\<lparr>state := Data n\<rparr>) n srch = (Inr (Some m), c', src')"
      using h assms False Head by (simp add: decode_Head)
    then have p: "unat n \<le> length srch" "m = take (unat n) srch" "src' = drop (unat n) srch"
        "c' = c\<lparr>state := Head\<rparr>"
      by (auto simp: decode_payload_Some)
    from h n have q: "src \<noteq> []" "announced_len src \<le> length src" "n = announced src"
        "n \<le> max_packet_length c" "srch = drop (announced_len src) src"
      by (auto simp: decode_head_Some)
    show ?thesis
      by (rule Whole [OF False Head q(1,3,4)]) (use p q in \<open>auto simp: add.commute\<close>)
  qed
qed

lemma decode_progress:
  assumes "decode c src = (Inr (Some m), c', src')"
  shows "pending c' src' < pending c src"
  using assms
  by (cases rule: decode_SomeE) (use announced_len_bounds [of src] in \<open>auto simp: pending_def\<close>)

function decode_all :: "bytes_codec \<Rightarrow> bytes \<Rightarrow> bytes list \<times> io_error option \<times> bytes_codec \<times> bytes" where
  "decode_all c src =
     (case decode c src of
        (Inl e, c', src') \<Rightarrow> ([], Some e, c', src')
      | (Inr (Some m), c', src') \<Rightarrow> (let (ms, rest) = decode_all c' src' in (m # ms, rest))
      | (Inr None, c', src') \<Rightarrow> ([], None, c', src'))"
  by pat_completeness auto
termination
  by (relation "measure (\<lambda>(c, src). pending c src)") (auto intro!: decode_progress [OF sym])

section \<open>The decoder as an incremental decoder\<close>

text \<open>The contract of \<open>Incremental\<close> holds for \<open>decode\<close> in framed mode.\<close>

declare decode_all.simps [simp del]

lemma decode_state_raw: "decode c src = (r, c', src') \<Longrightarrow> max_packet_length c' = max_packet_length c"
  by (auto simp: decode_def decode_payload_def decode_data_def
      split: if_splits decode_state.splits prod.splits sum.splits option.splits)

interpretation framed: incremental_decoder decode "\<lambda>c. \<not> raw c" pending decode_all
proof unfold_locales
  fix c src r c' src' suf and m :: bytes
  show "\<not> raw c \<Longrightarrow> decode c src = (r, c', src') \<Longrightarrow> \<not> raw c'" by (simp add: decode_raw)
  show "decode c src = (Inr (Some m), c', src') \<Longrightarrow> pending c' src' < pending c src"
    by (rule decode_progress)
  show "\<not> raw c \<Longrightarrow> decode c src = (r, c', src') \<Longrightarrow> r \<noteq> Inr None \<Longrightarrow>
      decode c (src @ suf) = (r, c', src' @ suf)" by (rule decode_append)
  show "\<not> raw c \<Longrightarrow> decode c src = (Inr None, c', src') \<Longrightarrow> decode c (src @ suf) = decode c' (src' @ suf)"
    by (rule decode_more)
  show "decode_all c src =
      (case decode c src of
         (Inl e, c', src') \<Rightarrow> ([], Some e, c', src')
       | (Inr (Some m), c', src') \<Rightarrow> (let (ms, r) = decode_all c' src' in (m # ms, r))
       | (Inr None, c', src') \<Rightarrow> ([], None, c', src'))"
    by (rule decode_all.simps)
qed

section \<open>Properties\<close>

fun encode_all :: "bytes_codec \<Rightarrow> bytes list \<Rightarrow> bytes \<Rightarrow> io_error + bytes" where
  "encode_all c [] buf = Inr buf"
| "encode_all c (d # ds) buf =
     (case encode c d buf of (Inl e, _) \<Rightarrow> Inl e | (Inr _, buf') \<Rightarrow> encode_all c ds buf')"

definition fits :: "bytes_codec \<Rightarrow> bytes \<Rightarrow> bool" where
  "fits c d \<longleftrightarrow> length d \<le> 0x3FFFFFFF \<and> length d \<le> unat (max_packet_length c)"

lemma fits_len: "fits c d \<Longrightarrow> length d \<le> 0x3FFFFFFF"
  by (simp add: fits_def)

lemma fits_word: "fits c d \<Longrightarrow> word_of_nat (length d) \<le> max_packet_length c"
  by (simp add: fits_def word_le_nat_alt unat_of_nat_small)

text \<open>
  What \<open>encode\<close> writes for a payload the header and the receiver's limit allow, \<open>decode\<close> reads back
  unchanged, whatever follows it in the buffer, and the codec is back in its initial state.
\<close>

theorem codec_roundtrip:
  assumes "\<not> raw c" "state c = Head" "fits c d"
  shows "\<exists>frame. encode c d buf = (Inr (), buf @ frame) \<and> decode c (frame @ rest) = (Inr (Some d), c, rest)"
proof (intro exI conjI)
  have len: "length d \<le> 0x3FFFFFFF" using assms(3) by (simp add: fits_def)
  show "encode c d buf = (Inr (), buf @ header (length d) @ d)" by (rule encode_frame [OF assms(1) len])
  show "decode c ((header (length d) @ d) @ rest) = (Inr (Some d), c, rest)"
    using decode_frame [OF assms(1,2) len fits_word [OF assms(3)]] by simp
qed

theorem codec_roundtrip_witness:
  "\<exists>frame. encode codec_new [7, 8] [5] = (Inr (), [5] @ frame) \<and>
     decode codec_new (frame @ [1]) = (Inr (Some [7, 8]), codec_new, [1])"
proof (rule codec_roundtrip)
  show "\<not> raw codec_new" "state codec_new = Head" by (simp_all add: codec_new_def)
  show "fits codec_new [7, 8]"
    by (simp add: fits_def codec_new_def unsigned_minus_1_eq_mask mask_eq_exp_minus_1)
qed

lemma encode_all_frames:
  assumes "\<not> raw c" "\<forall>d \<in> set ds. fits c d"
  shows "encode_all c ds buf = Inr (buf @ concat (map (\<lambda>d. header (length d) @ d) ds))"
  using assms
proof (induction ds arbitrary: buf)
  case (Cons d ds)
  then have "encode c d buf = (Inr (), buf @ header (length d) @ d)"
    by (intro encode_frame) (auto intro: fits_len)
  then show ?case using Cons by simp
qed simp

lemma decode_all_frames:
  assumes "\<not> raw c" "state c = Head" "\<forall>d \<in> set ds. fits c d"
  shows "decode_all c (concat (map (\<lambda>d. header (length d) @ d) ds)) = (ds, None, c, [])"
  using assms
proof (induction ds)
  case Nil
  then show ?case by (simp add: decode_all.simps [of c] decode_Head decode_head_eq)
next
  case (Cons d ds)
  then have "decode c (header (length d) @ d @ concat (map (\<lambda>d. header (length d) @ d) ds)) =
      (Inr (Some d), c, concat (map (\<lambda>d. header (length d) @ d) ds))"
    by (intro decode_frame) (auto simp: fits_word fits_len)
  then show ?case using Cons by (simp add: framed.drain_item)
qed

text \<open>
  C2: A stream of messages arrives intact however the network cuts it: encoding any list of
  messages that fit and feeding the bytes to the decoder in any chunks yields exactly these
  messages in order, no error, an empty buffer and a decoder ready for the next frame.
\<close>

theorem codec_stream:
  assumes "\<not> raw c" "state c = Head" "\<forall>d \<in> set ds. fits c d"
    and "encode_all c ds [] = Inr wire" "concat chunks = wire"
  shows "feed decode_all c [] chunks = (ds, None, c, [])"
proof (rule framed.feed_drain [OF assms(1)])
  show "decode_all c [] = ([], None, c, [])" using decode_all_frames [OF assms(1,2), of "[]"] by simp
  show "decode_all c ([] @ concat chunks) = (ds, None, c, [])"
    using assms(4,5) decode_all_frames [OF assms(1-3)]
    by (simp add: encode_all_frames [OF assms(1,3)])
qed


theorem codec_stream_witness:
  "feed decode_all codec_new [] [[8], [1, 2, 4], [], [9]] = ([[1, 2], [9]], None, codec_new, [])"
proof (rule codec_stream)
  show "\<not> raw codec_new" "state codec_new = Head" by (simp_all add: codec_new_def)
  show "\<forall>d \<in> set [[1, 2], [9 :: u8]]. fits codec_new d" by (simp add: fits_def codec_new_def unsigned_minus_1_eq_mask mask_eq_exp_minus_1)
  show "encode_all codec_new [[1, 2], [9 :: u8]] [] = Inr [8, 1, 2, 4, 9]"
    by (simp add: encode_def codec_new_def)
  show "concat [[8 :: u8], [1, 2, 4], [], [9]] = [8, 1, 2, 4, 9]" by simp
qed

text \<open>
  \<open>encode\<close> on every branch: raw mode copies; otherwise a payload of at most \<open>0x3FFFFFFF\<close> bytes is
  written behind a header, which is as short as the length allows, and a longer one is refused with
  the buffer unchanged.
\<close>

theorem encode_spec:
  "encode c d buf =
     (if raw c then (Inr (), buf @ d)
      else if length d \<le> 0x3FFFFFFF then (Inr (), buf @ header (length d) @ d)
      else (Inl (IoError InvalidInput ''Overflow''), buf))
   \<and> length (header (length d)) =
     (if length d < 2 ^ 6 then 1 else if length d < 2 ^ 14 then 2 else if length d < 2 ^ 22 then 3 else 4)"
proof (intro conjI)
  show "encode c d buf =
     (if raw c then (Inr (), buf @ d)
      else if length d \<le> 0x3FFFFFFF then (Inr (), buf @ header (length d) @ d)
      else (Inl (IoError InvalidInput ''Overflow''), buf))"
    using encode_frame [of c d buf] by (simp add: encode_def)
qed (simp add: header_len_def)

definition codec_ok :: "bytes_codec \<Rightarrow> bool" where
  "codec_ok c \<longleftrightarrow> (case state c of Head \<Rightarrow> True | Data n \<Rightarrow> n \<le> max_packet_length c \<and> unat n < 2 ^ 30)"

lemma announced_bound: "unat (announced src) < 2 ^ 30"
proof -
  have "take_bit 30 (announced src) = announced src"
  proof (rule bit_word_eqI)
    fix n assume "n < LENGTH(64)"
    have "announced_len src \<le> 4" by (rule announced_len_bounds)
    then show "bit (take_bit 30 (announced src)) n = bit (announced src) n"
      by (auto simp: announced_def bit_take_bit_iff bit_drop_bit_eq bit_from_le_bytes)
  qed
  then have "unat (announced src) = take_bit 30 (unat (announced src))"
    by (metis unsigned_take_bit_eq)
  then show ?thesis by (metis take_bit_nat_less_exp)
qed

lemma decode_ok:
  assumes "codec_ok c" "\<not> raw c" "decode c src = (r, c', src')"
  shows "codec_ok c' \<and> max_packet_length c' = max_packet_length c \<and>
    (\<forall>m. r = Inr (Some m) \<longrightarrow> length m \<le> unat (max_packet_length c) \<and> length m < 2 ^ 30)"
proof (cases "\<exists>m. r = Inr (Some m)")
  case True
  then obtain m where m: "r = Inr (Some m)" ..
  with assms(3) have "decode c src = (Inr (Some m), c', src')" by simp
  then show ?thesis using assms(1,2) m announced_bound [of src]
    by (cases rule: decode_SomeE) (auto simp: codec_ok_def word_le_nat_alt)
next
  case False
  have "max_packet_length c' = max_packet_length c" using assms(3) by (rule decode_state_raw)
  moreover have "codec_ok c'"
  proof (cases "state c")
    case (Data n)
    then show ?thesis using False assms
      by (auto simp: decode_Data decode_payload_def decode_data_def split: if_splits)
  next
    case Head
    obtain rh srch where h: "decode_head c src = (rh, srch)" by (cases "decode_head c src")
    have "codec_ok (c\<lparr>state := Data n\<rparr>)" if "rh = Inr (Some n)" for n
      using h that announced_bound [of src] by (auto simp: decode_head_Some codec_ok_def)
    then show ?thesis using False assms Head h
      by (auto simp: decode_Head decode_payload_def decode_data_def split: if_splits sum.splits option.splits)
  qed
  ultimately show ?thesis using False by simp
qed

lemma decode_all_bounded:
  "\<not> raw c \<Longrightarrow> codec_ok c \<Longrightarrow> decode_all c src = (ms, e, c', rest) \<Longrightarrow>
     codec_ok c' \<and> max_packet_length c' = max_packet_length c \<and>
     (\<forall>m \<in> set ms. length m \<le> unat (max_packet_length c) \<and> length m < 2 ^ 30)"
proof (induction c src arbitrary: ms rule: framed.drain_induct)
  case (error c src e c1 src1)
  then show ?case using decode_ok [OF error(3,1,2)] by simp
next
  case (wait c src c1 src1)
  then show ?case using decode_ok [OF wait(3,1,2)] by simp
next
  case (item c src m c1 src1)
  then obtain ms1 where "decode_all c1 src1 = (ms1, e, c', rest)" "ms = m # ms1"
    by (cases "decode_all c1 src1") (auto simp: framed.drain_item)
  then show ?case using decode_ok [OF item(5,1,2)] item(4) by auto
qed



text \<open>
  A frame above the limit is refused as soon as its header is complete, and neither the codec
  nor the buffer changes, so decoding again gives the same error.
\<close>

theorem decode_oversize:
  assumes "\<not> raw c" "state c = Head" "length d \<le> 0x3FFFFFFF" "unat (max_packet_length c) < length d"
  shows "decode c (header (length d) @ d @ rest) =
     (Inl (IoError InvalidData ''Too big packet''), c, header (length d) @ d @ rest)"
proof -
  have "max_packet_length c < word_of_nat (length d)"
    using assms(3,4) by (simp add: word_less_nat_alt unat_of_nat_small)
  then show ?thesis using assms by (simp add: decode_Head decode_head_header)
qed

theorem decode_oversize_witness:
  "decode (set_max_packet_length codec_new 1) (header (length [5, 6 :: u8]) @ [5, 6] @ [9]) =
     (Inl (IoError InvalidData ''Too big packet''), set_max_packet_length codec_new 1,
      header (length [5, 6 :: u8]) @ [5, 6] @ [9])"
  by (rule decode_oversize) (simp_all add: set_max_packet_length_def codec_new_def)

text \<open>
  In raw mode, which the relay switches both streams to, encoding adds nothing and decoding
  hands over whatever has arrived, without waiting.
\<close>

theorem raw_passthrough:
  "encode (codec_set_raw c) d buf = (Inr (), buf @ d) \<and>
   decode_all (codec_set_raw c) src = (if src = [] then [] else [src], None, codec_set_raw c, [])"
  by (simp add: encode_def codec_set_raw_def decode_all.simps decode_def)

end
