(* ===== verification/Codec_Tests.thy ===== *)
theory Codec_Tests imports Bytes_Codec begin

text \<open>
  The unit tests of \<open>libs/hbb_common/src/bytes_codec.rs\<close>, translated assertion by assertion, and that the
  model passes them: payloads on both sides of each header size, whole and cut.
\<close>

section \<open>The tests\<close>

text \<open>\<open>Vec::resize\<close>, and the assertions on a decoded frame: its length and first byte.\<close>

definition resize :: "nat \<Rightarrow> u8 \<Rightarrow> bytes \<Rightarrow> bytes" where
  "resize n b xs = (if n \<le> length xs then take n xs else xs @ replicate (n - length xs) b)"

definition frame_of :: "nat \<Rightarrow> u8 \<Rightarrow> io_error + bytes option \<Rightarrow> bool" where
  "frame_of n b r = (case r of Inr (Some res) \<Rightarrow> length res = n \<and> res ! 0 = b | _ \<Rightarrow> False)"

definition test_codec1 :: bool where
  "test_codec1 =
     (let codec = codec_new; bytes = resize 0x3F 1 []; (r, buf) = encode codec bytes [];
          buf_saved = buf; (r1, codec, buf') = decode codec buf;
          codec2 = codec_new; buf2 = []; (r2, codec2, buf2) = decode codec2 buf2;
          (r3, codec2, buf2) = decode codec2 (buf2 @ take 1 buf_saved);
          (r4, codec2, buf2) = decode codec2 (buf2 @ drop 1 buf_saved)
      in r = Inr () \<and> length buf_saved = 0x3F + 1 \<and> frame_of 0x3F 1 r1 \<and> r2 = Inr None \<and> r3 = Inr None \<and> frame_of 0x3F 1 r4)"

definition test_codec2 :: bool where
  "test_codec2 =
     (let codec = codec_new; (r, buf1) = encode codec [] []; bytes = resize (0x3F + 1) 2 [];
          (r', buf) = encode codec bytes buf1; (r1, codec, buf') = decode codec buf; (r2, codec, buf'') = decode codec buf'
      in r = Inr () \<and> length buf1 = 1 \<and> r' = Inr () \<and> length buf = 0x3F + 2 + 2 \<and>
         (case r1 of Inr (Some res) \<Rightarrow> length res = 0 | _ \<Rightarrow> False) \<and> frame_of (0x3F + 1) 2 r2)"

definition test_codec3 :: bool where
  "test_codec3 =
     (let codec = codec_new; bytes = resize (0x3F - 1) 3 []; (r, buf) = encode codec bytes [];
          (r1, codec, buf') = decode codec buf
      in r = Inr () \<and> length buf = 0x3F + 1 - 1 \<and> frame_of (0x3F - 1) 3 r1)"

definition test_codec4 :: bool where
  "test_codec4 =
     (let codec = codec_new; bytes = resize 0x3FFF 4 []; (r, buf) = encode codec bytes [];
          (r1, codec, buf') = decode codec buf
      in r = Inr () \<and> length buf = 0x3FFF + 2 \<and> frame_of 0x3FFF 4 r1)"

definition test_codec5 :: bool where
  "test_codec5 =
     (let codec = codec_new; bytes = resize 0x3FFFFF 5 []; (r, buf) = encode codec bytes [];
          (r1, codec, buf') = decode codec buf
      in r = Inr () \<and> length buf = 0x3FFFFF + 3 \<and> frame_of 0x3FFFFF 5 r1)"

definition test_codec6 :: bool where
  "test_codec6 =
     (let codec = codec_new; bytes = resize (0x3FFFFF + 1) 6 []; (r, buf) = encode codec bytes [];
          buf_saved = buf; (r1, codec, buf') = decode codec buf;
          codec2 = codec_new; buf2 = []; (r2, codec2, buf2) = decode codec2 (buf2 @ take 1 buf_saved);
          (r3, codec2, buf2) = decode codec2 (buf2 @ take 5 (drop 1 buf_saved));
          (r4, codec2, buf2) = decode codec2 (buf2 @ drop 6 buf_saved)
      in r = Inr () \<and> length buf_saved = 0x3FFFFF + 4 + 1 \<and> frame_of (0x3FFFFF + 1) 6 r1 \<and>
         r2 = Inr None \<and> r3 = Inr None \<and> frame_of (0x3FFFFF + 1) 6 r4)"

section \<open>The model passes them\<close>

lemma resize_new: "length (resize n b []) = n" "0 < n \<Longrightarrow> resize n b [] ! 0 = b"
  by (simp_all add: resize_def)

lemma frame_of_resize: "0 < n \<Longrightarrow> frame_of n b (Inr (Some (resize n b [])))"
  by (simp add: frame_of_def resize_new)

lemma fresh_codec: "\<not> raw codec_new" "state codec_new = Head" "w \<le> max_packet_length codec_new"
  by (simp_all add: codec_new_def)

lemma encode_resize:
  "n \<le> 0x3FFFFFFF \<Longrightarrow> encode codec_new (resize n b []) buf = (Inr (), buf @ header n @ resize n b [])"
  using encode_frame [of codec_new "resize n b []" buf] by (simp add: fresh_codec resize_new)

lemma decode_resize:
  "n \<le> 0x3FFFFFFF \<Longrightarrow> decode codec_new (header n @ resize n b [] @ rest) = (Inr (Some (resize n b [])), codec_new, rest)"
  using decode_frame [of codec_new "resize n b []" rest] by (simp add: fresh_codec resize_new)

text \<open>Part of a frame is no frame, and the rest completes it, however often it is cut.\<close>

lemma decode_part:
  assumes "\<not> raw c" "decode c (xs @ ys) = (Inr (Some d), c', [])" "ys \<noteq> []" "decode c xs = (r, c1, buf)"
  shows "r = Inr None \<and> decode c1 (buf @ ys) = (Inr (Some d), c', []) \<and> \<not> raw c1"
proof -
  have "r = Inr None"
  proof (rule ccontr)
    assume "r \<noteq> Inr None"
    from decode_append [OF assms(1,4) this, of ys] show False using assms(2,3) by simp
  qed
  then show ?thesis using decode_more [of c xs c1 buf ys] decode_raw [OF assms(4)] assms by simp
qed

lemma decode_resize_whole:
  "n \<le> 0x3FFFFFFF \<Longrightarrow> decode codec_new (header n @ resize n b []) = (Inr (Some (resize n b [])), codec_new, [])"
  using decode_resize [of n b "[]"] by simp

lemma length_frame: "length (header n @ resize n b []) = header_len n + n"
  by (simp add: resize_new)

theorem test_codec1_passes: test_codec1
proof -
  let ?d = "resize 0x3F 1 []" and ?f = "header 0x3F @ resize 0x3F 1 []"
  have whole: "decode codec_new (take 1 ?f @ drop 1 ?f) = (Inr (Some ?d), codec_new, [])"
    unfolding append_take_drop_id by (rule decode_resize_whole) simp
  have empty: "decode codec_new [] = (Inr None, codec_new, [])" by (simp add: decode_def codec_new_def decode_head_def)
  obtain r c buf where cut: "decode codec_new (take 1 ?f) = (r, c, buf)" by (metis prod_cases3)
  have "drop 1 ?f \<noteq> []" unfolding drop_eq_Nil length_frame by (simp add: header_len_def)
  note part = decode_part [OF fresh_codec(1) whole this cut]
  have "decode codec_new ?f = (Inr (Some ?d), codec_new, [])" by (rule decode_resize_whole) simp
  moreover have "encode codec_new ?d [] = (Inr (), ?f)" using encode_resize [of "0x3F" 1 "[]"] by simp
  moreover have "length ?f = 0x3F + 1" by (simp add: length_frame header_len_def del: length_append)
  moreover have "frame_of 0x3F 1 (Inr (Some ?d))" by (rule frame_of_resize) simp
  ultimately show ?thesis unfolding test_codec1_def Let_def using empty cut part by simp
qed

theorem test_codec2_passes: test_codec2
proof -
  let ?d = "resize (0x3F + 1) 2 []" and ?f = "header (0x3F + 1) @ resize (0x3F + 1) 2 []"
  have 1: "encode codec_new [] [] = (Inr (), header 0)" using encode_frame [of codec_new "[]" "[]"] by (simp add: fresh_codec)
  have 2: "encode codec_new ?d (header 0) = (Inr (), header 0 @ ?f)" by (rule encode_resize) simp
  have 3: "decode codec_new (header 0 @ ?f) = (Inr (Some []), codec_new, ?f)"
    using decode_frame [of codec_new "[]" ?f] by (simp add: fresh_codec)
  have 4: "decode codec_new ?f = (Inr (Some ?d), codec_new, [])" by (rule decode_resize_whole) simp
  have 5: "length (header 0 @ ?f) = 0x3F + 2 + 2" by (simp add: resize_new header_len_def)
  have 6: "frame_of (0x3F + 1) 2 (Inr (Some ?d))" by (rule frame_of_resize) simp
  show ?thesis unfolding test_codec2_def Let_def prod.case 1 2 3 4 using 5 6 by (simp add: header_len_def)
qed

text \<open>A payload encoded and decoded as a whole.\<close>

lemma whole_frame:
  assumes "0 < n" "n \<le> 0x3FFFFFFF"
  shows "let (r, buf) = encode codec_new (resize n b []) []; (r1, codec, buf') = decode codec_new buf
    in r = Inr () \<and> length buf = n + header_len n \<and> frame_of n b r1"
  using assms encode_resize [OF assms(2), of b "[]"] decode_resize_whole [OF assms(2), of b]
  by (simp add: resize_new frame_of_resize)

theorem test_codec3_passes: test_codec3
  using whole_frame [of "0x3F - 1" 3] by (simp add: test_codec3_def Let_def header_len_def)

theorem test_codec4_passes: test_codec4
  using whole_frame [of "0x3FFF" 4] by (simp add: test_codec4_def Let_def header_len_def)

theorem test_codec5_passes: test_codec5
  using whole_frame [of "0x3FFFFF" 5] by (simp add: test_codec5_def Let_def header_len_def)

theorem test_codec6_passes: test_codec6
proof -
  let ?n = "0x3FFFFF + 1 :: nat"
  let ?d = "resize ?n 6 []" and ?f = "header ?n @ resize ?n 6 []"
  have len: "length ?f = 0x3FFFFF + 4 + 1" by (simp only: length_frame) (simp add: header_len_def)
  have whole: "decode codec_new ?f = (Inr (Some ?d), codec_new, [])" by (rule decode_resize_whole) simp
  then have all: "decode codec_new (take 1 ?f @ drop 1 ?f) = (Inr (Some ?d), codec_new, [])"
    unfolding append_take_drop_id .
  obtain r c buf where cut: "decode codec_new (take 1 ?f) = (r, c, buf)" by (metis prod_cases3)
  have "drop 1 ?f \<noteq> []" unfolding drop_eq_Nil len by simp
  note part = decode_part [OF fresh_codec(1) all this cut]
  have "drop 1 ?f = take 5 (drop 1 ?f) @ drop 6 ?f"
    using append_take_drop_id [of 5 "drop 1 ?f"] by (simp only: drop_drop) simp
  then have rest: "decode c ((buf @ take 5 (drop 1 ?f)) @ drop 6 ?f) = (Inr (Some ?d), codec_new, [])"
    using part unfolding append_assoc by metis
  obtain r' c' buf' where cut': "decode c (buf @ take 5 (drop 1 ?f)) = (r', c', buf')" by (metis prod_cases3)
  have "drop 6 ?f \<noteq> []" unfolding drop_eq_Nil len by simp
  note part' = decode_part [OF _ rest this cut']
  have enc: "encode codec_new ?d [] = (Inr (), ?f)" using encode_resize [of ?n 6 "[]"] by simp
  have frame: "frame_of ?n 6 (Inr (Some ?d))" by (rule frame_of_resize) simp
  have results: "r = Inr None" "r' = Inr None" "decode c' (buf' @ drop 6 ?f) = (Inr (Some ?d), codec_new, [])"
    using part part' by simp_all
  show ?thesis
    unfolding test_codec6_def Let_def enc prod.case whole append_Nil cut cut' results(3) len using results(1,2) frame by simp
qed

end
