(* ===== verification/Addr_Mangle.thy ===== *)
theory Addr_Mangle imports Rust_Prelude begin

text \<open>
  \<open>AddrMangle\<close> of \<open>libs/hbb_common/src/lib.rs\<close>: an IPv4 socket address travels mixed with the low 32
  bits of the clock, so that a router that rewrites addresses in the payload does not find it. The
  result is the 16 bytes of a \<open>u128\<close> without its trailing zero bytes.

  The clock is an argument: the microseconds since the epoch, \<open>None\<close> when the clock is before it.
  The byte order of the machine is an argument too, and so is whether the build checks overflow.
  The additions of \<open>encode\<close> cannot overflow 128 bits.
\<close>

section \<open>Encoding and decoding\<close>

definition mangle_value :: "u128 \<Rightarrow> u128 \<Rightarrow> u128 \<Rightarrow> u128" where
  "mangle_value ip tm port =
     push_bit 49 (ip + tm) OR push_bit 17 tm OR (port + (tm AND 0xFFFF))"

definition n_padding :: "bytes \<Rightarrow> nat" where
  "n_padding bs = length (takeWhile (\<lambda>i. i = 0) (rev bs))"

definition mangle_encode :: "endian \<Rightarrow> u128 option \<Rightarrow> socket_addr \<Rightarrow> bytes outcome" where
  "mangle_encode ne now addr =
     (case addr of
        V4 (o0, o1, o2, o3) port \<Rightarrow>
          (case now of
             None \<Rightarrow> Panic
           | Some micros \<Rightarrow>
               let tm = ucast (ucast micros :: u32) :: u128;
                   ip = ucast (from_ne_bytes ne [o0, o1, o2, o3] :: u32) :: u128;
                   v = mangle_value ip tm (ucast port);
                   bs = to_ne_bytes ne v
               in Ret (take (16 - n_padding bs) bs))
      | V6 _ _ _ _ \<Rightarrow> Panic)"

definition mangle_decode :: "endian \<Rightarrow> bool \<Rightarrow> bytes \<Rightarrow> socket_addr outcome" where
  "mangle_decode ne checks bs =
     (if 16 < length bs then Panic
      else
        let padded = bs @ replicate (16 - length bs) 0;
            number = from_ne_bytes ne padded :: u128;
            tm = drop_bit 17 number AND 0xFFFFFFFF
        in
          obind (rust_sub checks (drop_bit 49 number) tm) (\<lambda>ip.
          let ip = to_ne_bytes ne (ucast ip :: u32) in
          obind (rust_sub checks (number AND 0xFFFFFF) (tm AND 0xFFFF)) (\<lambda>port.
          Ret (V4 (ip ! 0, ip ! 1, ip ! 2, ip ! 3) (ucast port)))))"

section \<open>Padding\<close>

lemma n_padding_le: "n_padding bs \<le> length bs"
  by (metis n_padding_def length_rev length_takeWhile_le)

lemma drop_padding: "drop (length bs - n_padding bs) bs = replicate (n_padding bs) 0"
proof -
  have "rev (drop (length bs - n_padding bs) bs) = take (n_padding bs) (rev bs)"
    by (simp add: take_rev)
  also have "\<dots> = takeWhile (\<lambda>i. i = 0) (rev bs)"
    by (simp add: n_padding_def takeWhile_eq_take [symmetric])
  also have "\<dots> = replicate (n_padding bs) 0"
    unfolding n_padding_def
    by (intro replicate_eqI [symmetric] replicate_length_same [symmetric]) (auto dest: set_takeWhileD)
  finally show ?thesis by (metis rev_replicate rev_rev_ident)
qed

lemma strip_pad:
  assumes "length bs = 16"
  shows "take (16 - n_padding bs) bs @ replicate (16 - length (take (16 - n_padding bs) bs)) 0 = bs"
proof -
  have "16 - length (take (16 - n_padding bs) bs) = n_padding bs"
    using assms n_padding_le [of bs] by simp
  then show ?thesis
    using drop_padding [of bs] assms append_take_drop_id [of "16 - n_padding bs" bs] by simp
qed

section \<open>The three fields do not overlap\<close>

lemma AND_mask:
  "(w :: u128) AND 0xFFFFFFFF = take_bit 32 w"
  "(w :: u128) AND 0xFFFFFF = take_bit 24 w"
  "(w :: u128) AND 0xFFFF = take_bit 16 w"
  by (simp_all add: take_bit_eq_mask mask_eq_exp_minus_1)

lemma mangle_fields:
  fixes ip tm port :: u128
  assumes "unat ip < 2 ^ 32" "unat tm < 2 ^ 32" "unat port < 2 ^ 16"
  defines "v \<equiv> mangle_value ip tm port"
  shows "take_bit 32 (drop_bit 17 v) = tm"
    and "drop_bit 49 v = ip + tm"
    and "take_bit 24 v = push_bit 17 (take_bit 7 tm) + (port + take_bit 16 tm)"
    and "unat (ip + tm) = unat ip + unat tm"
    and "unat (port + take_bit 16 tm) = unat port + unat (take_bit 16 tm)"
    and "unat (take_bit 16 tm) < 2 ^ 16"
proof -
  show a: "unat (ip + tm) = unat ip + unat tm"
    using assms by (simp add: unat_word_ariths)
  show t: "unat (take_bit 16 tm) < 2 ^ 16"
    by (metis take_bit_nat_less_exp unsigned_take_bit_eq)
  show p: "unat (port + take_bit 16 tm) = unat port + unat (take_bit 16 tm)"
    using assms t by (simp add: unat_word_ariths)
  have A: "\<not> bit (ip + tm) n" if "33 \<le> n" for n
    using assms a that by (intro bit_small [where k = 33]) auto
  have A79: "n < 79" if "bit (ip + tm) n" for n
    using A [of n] that by (cases "n < 33") auto
  have T: "\<not> bit tm n" if "32 \<le> n" for n
    using assms that by (intro bit_small [where k = 32]) auto
  have P: "\<not> bit (port + take_bit 16 tm) n" if "17 \<le> n" for n
    using assms p t that by (intro bit_small [where k = 17]) auto
  note bits = v_def mangle_value_def AND_mask bit_simps
  show "take_bit 32 (drop_bit 17 v) = tm"
    by (rule bit_word_eqI) (auto simp: bits T P)
  show "drop_bit 49 v = ip + tm"
    by (rule bit_word_eqI) (auto simp: bits T P dest: A79)
  have "take_bit 24 v = push_bit 17 (take_bit 7 tm) OR (port + take_bit 16 tm)"
    by (rule bit_word_eqI) (auto simp: bits A T P)
  also have "\<dots> = push_bit 17 (take_bit 7 tm) + (port + take_bit 16 tm)"
    by (rule disjunctive_add [symmetric]) (auto simp: bit_simps P)
  finally show "take_bit 24 v = push_bit 17 (take_bit 7 tm) + (port + take_bit 16 tm)" .
qed

lemma ucast_add: "ucast (a + b :: u128) = (ucast a + ucast b :: u16)"
proof -
  have "take_bit 16 (take_bit 128 x + take_bit 128 y) = take_bit 16 (x + y)" for x y :: int
    using take_bit_add [of 16 "take_bit 128 x" "take_bit 128 y"] take_bit_add [of 16 x y] by simp
  then show ?thesis by transfer simp
qed

lemma ucast_push_17: "ucast (push_bit 17 w :: u128) = (0 :: u16)"
  by (rule bit_word_eqI) (auto simp: bit_simps)

lemma ucast_back [simp]:
  "ucast (ucast (p :: u16) :: u128) = p"
  "ucast (ucast (i :: u32) :: u128) = i"
  by (rule bit_word_eqI, auto simp: bit_simps)+

lemma unat_ucast_u16 [simp]: "unat (ucast (p :: u16) :: u128) = unat p"
  using unat_less [of p] by (simp add: unsigned_ucast_eq take_bit_nat_eq_self)
lemma mangle_decode_value:
  fixes ip :: u32 and port :: u16 and tm :: u32
  assumes "length bs \<le> 16"
    and "from_ne_bytes ne (bs @ replicate (16 - length bs) 0) = mangle_value (ucast ip) (ucast tm) (ucast port)"
  shows "mangle_decode ne checks bs =
    (let o' = to_ne_bytes ne ip in Ret (V4 (o' ! 0, o' ! 1, o' ! 2, o' ! 3) port))"
proof -
  have b: "unat (ucast ip :: u128) < 2 ^ 32" "unat (ucast tm :: u128) < 2 ^ 32"
      "unat (ucast port :: u128) < 2 ^ 16"
    using unat_less [of ip] unat_less [of tm] unat_less [of port]
    by (simp_all add: unsigned_ucast_eq take_bit_nat_eq_self)
  note f = mangle_fields [OF b]
  let ?v = "mangle_value (ucast ip) (ucast tm) (ucast port)"
  let ?t = "ucast tm :: u128"
  have le1: "?t \<le> ucast ip + ?t" using f(4) by (simp add: word_le_nat_alt)
  have X: "unat (push_bit 17 (take_bit 7 ?t)) < 2 ^ 24"
    by (rule unat_less_bit) (auto simp: bit_simps)
  then have low: "unat (take_bit 24 ?v) = unat (push_bit 17 (take_bit 7 ?t)) + unat (ucast port :: u128) + unat (take_bit 16 ?t)"
    using f b by (simp add: unat_word_ariths)
  then have le2: "take_bit 16 ?t \<le> take_bit 24 ?v" by (simp add: word_le_nat_alt)
  have "take_bit 24 ?v - take_bit 16 ?t = push_bit 17 (take_bit 7 ?t) + ucast port"
    by (simp add: f(3))
  then have port: "ucast (take_bit 24 ?v - take_bit 16 ?t) = port"
    by (simp add: ucast_add ucast_push_17)
  have tm16: "take_bit 16 (drop_bit 17 ?v) = take_bit 16 ?t"
    using arg_cong [OF f(1), of "take_bit 16"] by simp
  show ?thesis
    using assms le1 le2 port
    by (simp add: mangle_decode_def AND_mask f(1,2) tm16 Let_def)
qed

lemma mangle_encode_V4:
  "mangle_encode ne (Some micros) (V4 (o0, o1, o2, o3) port) =
     (let bs = to_ne_bytes ne (mangle_value (ucast (from_ne_bytes ne [o0, o1, o2, o3] :: u32))
                 (ucast (ucast micros :: u32)) (ucast port))
      in Ret (take (16 - n_padding bs) bs))"
  by (simp add: mangle_encode_def Let_def)

lemma octets_round:
  "(let o' = to_ne_bytes ne (from_ne_bytes ne [o0, o1, o2, o3] :: u32) in V4 (o' ! 0, o' ! 1, o' ! 2, o' ! 3) port) =
     V4 (o0, o1, o2, o3) port"
  by (simp add: to_from_ne_bytes Let_def)

text \<open>
  C14: Decoding what was encoded gives the address back, on little- and big-endian machines, at any
  clock, and no build panics on it.
\<close>

theorem mangle_roundtrip:
  "\<exists>bs. mangle_encode ne (Some micros) (V4 ip port) = Ret bs \<and> length bs \<le> 16 \<and>
     mangle_decode ne checks bs = Ret (V4 ip port)"
proof -
  obtain o0 o1 o2 o3 where ip: "ip = (o0, o1, o2, o3)" by (cases ip)
  let ?v = "mangle_value (ucast (from_ne_bytes ne [o0, o1, o2, o3] :: u32)) (ucast (ucast micros :: u32)) (ucast port)"
  let ?all = "to_ne_bytes ne ?v" and ?bs = "take (16 - n_padding (to_ne_bytes ne ?v)) (to_ne_bytes ne ?v)"
  have pad: "?bs @ replicate (16 - length ?bs) 0 = ?all" by (rule strip_pad) simp
  have "mangle_decode ne checks ?bs = Ret (V4 ip port)"
    using octets_round [of ne o0 o1 o2 o3 port]
    by (subst mangle_decode_value [where ip = "from_ne_bytes ne [o0, o1, o2, o3]" and tm = "ucast micros" and port = port])
      (use pad in \<open>auto simp: ip Let_def\<close>)
  then show ?thesis
    by (intro exI [of _ ?bs]) (simp add: ip mangle_encode_V4 Let_def)
qed

definition mangle_bytes :: "endian \<Rightarrow> u32 \<Rightarrow> u32 \<Rightarrow> u16 \<Rightarrow> bytes" where
  "mangle_bytes ne ip tm port =
     (let bs = to_ne_bytes ne (mangle_value (ucast ip) (ucast tm) (ucast port))
      in take (16 - n_padding bs) bs)"

lemma mangle_bytes_inj:
  assumes "mangle_bytes ne ip tm port = mangle_bytes ne ip' tm' port'"
  shows "ip = ip' \<and> tm = tm' \<and> port = port'"
proof -
  have b: "unat (ucast i :: u128) < 2 ^ 32" "unat (ucast p :: u128) < 2 ^ 16" for i :: u32 and p :: u16
    using unat_less [of i] unat_less [of p] by (simp_all add: unsigned_ucast_eq take_bit_nat_eq_self)
  let ?v = "mangle_value (ucast ip) (ucast tm) (ucast port)"
  let ?v' = "mangle_value (ucast ip') (ucast tm') (ucast port')"
  have "to_ne_bytes ne ?v = to_ne_bytes ne ?v'"
    using assms strip_pad [of "to_ne_bytes ne ?v"] strip_pad [of "to_ne_bytes ne ?v'"]
    by (simp add: mangle_bytes_def Let_def)
  then have "from_ne_bytes ne (to_ne_bytes ne ?v) = (from_ne_bytes ne (to_ne_bytes ne ?v') :: u128)" by simp
  then have v: "?v = ?v'" by simp
  note f = mangle_fields [of "ucast ip" "ucast tm" "ucast port", OF b(1) b(1) b(2)]
  note f' = mangle_fields [of "ucast ip'" "ucast tm'" "ucast port'", OF b(1) b(1) b(2)]
  have tm: "ucast tm = (ucast tm' :: u128)" using f(1) f'(1) v by simp
  then have "ucast (ucast tm :: u128) = (ucast (ucast tm' :: u128) :: u32)" by simp
  then have "tm = tm'" by simp
  moreover have "ucast ip = (ucast ip' :: u128)" using f(2) f'(2) v tm by simp
  then have "ucast (ucast ip :: u128) = (ucast (ucast ip' :: u128) :: u32)" by simp
  then have "ip = ip'" by simp
  moreover have "ucast port = (ucast port' :: u128)" using f(3) f'(3) v tm by simp
  then have "ucast (ucast port :: u128) = (ucast (ucast port' :: u128) :: u16)" by simp
  then have "port = port'" by simp
  ultimately show ?thesis by simp
qed

text \<open>
  Two encodings are equal only if the address and the low 32 bits of the clock are: the mixed
  bytes change with the clock and never confuse two addresses.
\<close>

theorem mangle_injective:
  "mangle_encode ne (Some m) (V4 ip p) = mangle_encode ne (Some m') (V4 ip' p') \<longleftrightarrow>
     ip = ip' \<and> p = p' \<and> ucast m = (ucast m' :: u32)"
proof -
  obtain a b c d where ip: "ip = (a, b, c, d)" by (cases ip)
  obtain a' b' c' d' where ip': "ip' = (a', b', c', d')" by (cases ip')
  have inj: "(from_ne_bytes ne [a, b, c, d] :: u32) = from_ne_bytes ne [a', b', c', d'] \<longleftrightarrow> ip = ip'"
  proof
    assume "(from_ne_bytes ne [a, b, c, d] :: u32) = from_ne_bytes ne [a', b', c', d']"
    then have "to_ne_bytes ne (from_ne_bytes ne [a, b, c, d] :: u32) =
        to_ne_bytes ne (from_ne_bytes ne [a', b', c', d'] :: u32)" by simp
    then show "ip = ip'" by (simp add: to_from_ne_bytes ip ip')
  qed (simp add: ip ip')
  have "mangle_encode ne (Some m) (V4 ip p) = mangle_encode ne (Some m') (V4 ip' p') \<longleftrightarrow>
      mangle_bytes ne (from_ne_bytes ne [a, b, c, d]) (ucast m) p =
      mangle_bytes ne (from_ne_bytes ne [a', b', c', d']) (ucast m') p'"
    by (simp add: ip ip' mangle_encode_V4 mangle_bytes_def Let_def)
  also have "\<dots> \<longleftrightarrow> (from_ne_bytes ne [a, b, c, d] :: u32) = from_ne_bytes ne [a', b', c', d'] \<and>
      p = p' \<and> ucast m = (ucast m' :: u32)"
    using mangle_bytes_inj by metis
  finally show ?thesis by (simp add: inj)
qed

lemma mangle_value_zero_high:
  fixes ip tm port :: u128
  assumes "unat ip < 2 ^ 32" "unat tm < 2 ^ 32" "unat port < 2 ^ 16" "82 \<le> n"
  shows "\<not> bit (mangle_value ip tm port) n"
proof -
  note f = mangle_fields [OF assms(1-3)]
  have "bit (mangle_value ip tm port) n = bit (drop_bit 49 (mangle_value ip tm port)) (n - 49)"
    using assms(4) by (simp add: bit_simps)
  also have "\<dots> = bit (ip + tm) (n - 49)" by (simp only: f(2))
  also have "\<not> \<dots>"
    using assms f(4) by (intro bit_small [where k = 33]) auto
  finally show ?thesis by simp
qed

lemma n_padding_ge:
  assumes "drop k bs = replicate (length bs - k) 0" "k \<le> length bs"
  shows "length bs - k \<le> n_padding bs"
proof -
  have "rev bs = replicate (length bs - k) 0 @ rev (take k bs)"
    using assms by (metis append_take_drop_id rev_append rev_replicate)
  then have "takeWhile (\<lambda>i. i = 0) (rev bs) =
      replicate (length bs - k) 0 @ takeWhile (\<lambda>i. i = 0) (rev (take k bs))"
    by (simp only:) (rule takeWhile_append2, auto)
  then show ?thesis by (simp add: n_padding_def)
qed

lemma strip_last: "take (length bs - n_padding bs) bs \<noteq> [] \<Longrightarrow> last (take (length bs - n_padding bs) bs) \<noteq> 0"
proof -
  assume ne: "take (length bs - n_padding bs) bs \<noteq> []"
  have "rev (take (length bs - n_padding bs) bs) = drop (n_padding bs) (rev bs)"
    by (simp add: drop_rev)
  also have "\<dots> = dropWhile (\<lambda>i. i = 0) (rev bs)"
    by (simp add: n_padding_def dropWhile_eq_drop)
  finally have "rev (take (length bs - n_padding bs) bs) = dropWhile (\<lambda>i. i = 0) (rev bs)" .
  then show ?thesis using ne hd_dropWhile [of "\<lambda>i. i = 0" "rev bs"]
    by (metis hd_rev rev_is_Nil_conv)
qed

text \<open>
  On a little-endian machine the encoding is at most 11 bytes and never ends in a zero byte,
  which is what makes dropping the padding reversible.
\<close>

theorem mangle_compact:
  "\<exists>bs. mangle_encode Little (Some m) (V4 ip p) = Ret bs \<and> length bs \<le> 11 \<and> (bs = [] \<or> last bs \<noteq> 0)"
proof -
  obtain a b c d where ip: "ip = (a, b, c, d)" by (cases ip)
  have b: "unat (ucast i :: u128) < 2 ^ 32" "unat (ucast p :: u128) < 2 ^ 16" for i :: u32 and p :: u16
    using unat_less [of i] unat_less [of p] by (simp_all add: unsigned_ucast_eq take_bit_nat_eq_self)
  define v where "v = mangle_value (ucast (from_ne_bytes Little [a, b, c, d] :: u32))
      (ucast (ucast m :: u32)) (ucast p)"
  let ?all = "to_ne_bytes Little v"
  have "\<not> bit v n" if "82 \<le> n" for n
    unfolding v_def using that b by (intro mangle_value_zero_high) auto
  then have "drop_bit (88 + 8 * i) v = 0" for i
    by (intro bit_word_eqI) (simp add: bit_drop_bit_eq)
  then have "drop 11 ?all = replicate (length ?all - 11) 0"
    by (intro nth_equalityI) (auto simp: to_ne_bytes_def nth_to_le_bytes)
  then have "5 \<le> n_padding ?all" using n_padding_ge [of 11 ?all] by simp
  then show ?thesis
    using strip_last [of ?all]
    by (intro exI [of _ "take (16 - n_padding ?all) ?all"]) (auto simp: ip mangle_encode_V4 v_def Let_def)
qed


end
