(* ===== verification/Net_Util.thy ===== *)
theory Net_Util imports Rust_Prelude begin

text \<open>
  The rest of \<open>libs/hbb_common/src/lib.rs\<close>: opening a socket, resolving a host name, and the two
  version helpers. The operating system and the resolver are arguments.
\<close>

section \<open>Sockets\<close>

datatype domain = Ipv4 | Ipv6
datatype sock_type = Stream | Dgram

datatype sock_call =
    SocketNew domain sock_type
  | SetReusePort bool
  | SetReuseAddress bool
  | Bind socket_addr

text \<open>
  A chain of calls with \<open>?\<close> after each: the calls made and the first error, if any. \<open>os\<close> answers
  each call.
\<close>

fun run_calls :: "('c \<Rightarrow> io_error option) \<Rightarrow> 'c list \<Rightarrow> 'c list \<times> (io_error + unit)" where
  "run_calls os [] = ([], Inr ())"
| "run_calls os (c # cs) =
     (case os c of
        Some e \<Rightarrow> ([c], Inl e)
      | None \<Rightarrow> (let (made, r) = run_calls os cs in (c # made, r)))"

definition socket_calls :: "bool \<Rightarrow> socket_addr \<Rightarrow> bool \<Rightarrow> bool \<Rightarrow> sock_call list" where
  "socket_calls unix addr tcp reuse =
     (let stype = (if tcp then Stream else Dgram) in
      [case addr of V4 _ _ \<Rightarrow> SocketNew Ipv4 stype | V6 _ _ _ _ \<Rightarrow> SocketNew Ipv6 stype] @
      (if reuse then (if unix then [SetReusePort True] else []) @ [SetReuseAddress True] else []) @
      [Bind addr])"

definition new_socket :: "bool \<Rightarrow> (sock_call \<Rightarrow> io_error option) \<Rightarrow> socket_addr \<Rightarrow> bool \<Rightarrow> bool \<Rightarrow>
    sock_call list \<times> (io_error + unit)" where
  "new_socket unix os addr tcp reuse = run_calls os (socket_calls unix addr tcp reuse)"

lemma run_calls_prefix: "\<exists>rest. cs = fst (run_calls os cs) @ rest"
  by (induction cs) (auto split: option.splits prod.splits)

lemma run_calls_ok: "snd (run_calls os cs) = Inr () \<longleftrightarrow> (\<forall>c \<in> set cs. os c = None)"
  by (induction cs) (auto split: option.splits prod.splits)

lemma run_calls_made: "\<forall>c \<in> set cs. os c = None \<Longrightarrow> run_calls os cs = (cs, Inr ())"
  by (induction cs) auto

lemma run_calls_err:
  "snd (run_calls os cs) = Inl e \<Longrightarrow>
     fst (run_calls os cs) \<noteq> [] \<and> os (last (fst (run_calls os cs))) = Some e \<and>
     (\<forall>c \<in> set (butlast (fst (run_calls os cs))). os c = None)"
  by (induction cs) (auto split: option.splits prod.splits)

section \<open>Host names\<close>

text \<open>\<open>resolve\<close> is \<open>ToSocketAddrs::to_socket_addrs\<close> on a string.\<close>

definition to_socket_addr :: "(string \<Rightarrow> io_error + socket_addr list) \<Rightarrow> string \<Rightarrow> anyhow_error + socket_addr" where
  "to_socket_addr resolve host =
     (case resolve host of
        Inl e \<Rightarrow> Inl (Io e)
      | Inr addrs \<Rightarrow>
          if addrs = [] then Inl (Bail (''Failed to solve '' @ host)) else Inr (addrs ! 0))"

section \<open>The version in a download URL\<close>

text \<open>
  \<open>s.chars().rev().enumerate().filter(...).next().map(...)\<close>: how far from the end the last
  occurrence of a character is.
\<close>

definition rev_index :: "char \<Rightarrow> string \<Rightarrow> nat option" where
  "rev_index ch url =
     (case filter (\<lambda>(_, x). x = ch) (enumerate 0 (rev url)) of
        [] \<Rightarrow> None
      | (i, _) # _ \<Rightarrow> Some i)"

text \<open>\<open>str::parse::<i32>\<close>: an optional sign, at least one digit, a value in range.\<close>

definition is_digit :: "char \<Rightarrow> bool" where
  "is_digit ch \<longleftrightarrow> 48 \<le> (of_char ch :: nat) \<and> (of_char ch :: nat) \<le> 57"

definition digits_value :: "string \<Rightarrow> nat" where
  "digits_value ds = foldl (\<lambda>n ch. 10 * n + (of_char ch - 48)) 0 ds"

definition parse_i32 :: "string \<Rightarrow> int option" where
  "parse_i32 s =
     (let (neg, ds) =
        (case s of
           [] \<Rightarrow> (False, [])
         | ch # cs \<Rightarrow>
             if ch = CHR ''-'' then (True, cs) else if ch = CHR ''+'' then (False, cs) else (False, s));
        n = (if neg then - int (digits_value ds) else int (digits_value ds))
      in if ds \<noteq> [] \<and> list_all is_digit ds \<and> - (2 ^ 31) \<le> n \<and> n < 2 ^ 31 then Some n else None)"

definition get_version_from_url :: "string \<Rightarrow> string" where
  "get_version_from_url url =
     (let n = length url in
      case rev_index (CHR ''-'') url of
        None \<Rightarrow> []
      | Some a \<Rightarrow>
          (case rev_index (CHR ''.'') url of
             None \<Rightarrow> []
           | Some b \<Rightarrow>
               if a > b then
                 if parse_i32 (drop (n - b) url) \<noteq> None then drop (n - a) url
                 else take (a - b - 1) (drop (n - a) url)
               else drop (n - a) url))"

lemma filter_enumerate_None: "ch \<notin> set xs \<Longrightarrow> filter (\<lambda>(_, x). x = ch) (enumerate k xs) = []"
  by (auto simp: filter_empty_conv in_set_enumerate_eq)

lemma filter_enumerate_first:
  assumes "ch \<notin> set xs"
  shows "\<exists>rest. filter (\<lambda>(_, x). x = ch) (enumerate k (xs @ ch # ys)) = (k + length xs, ch) # rest"
  using assms by (simp add: enumerate_append_eq filter_enumerate_None)

lemma rev_index_None: "ch \<notin> set url \<Longrightarrow> rev_index ch url = None"
  by (simp add: rev_index_def filter_enumerate_None)

lemma rev_index_last:
  assumes "ch \<notin> set v"
  shows "rev_index ch (pre @ ch # v) = Some (length v)"
  using filter_enumerate_first [of ch "rev v" 0 "rev pre"] assms by (auto simp: rev_index_def)

text \<open>
  C34: The version is what follows the last dash of the URL; if the part behind its last dot is no
  32-bit integer, that part (a file extension) and the dot are cut off. A URL without a dash, or with
  a dash but no dot at all, has no version.
\<close>

theorem version_from_url:
  assumes "CHR ''-'' \<notin> set v" "CHR ''-'' \<notin> set ext" "CHR ''.'' \<notin> set ext"
    and "CHR ''-'' \<notin> set w" "CHR ''.'' \<notin> set w"
  shows "get_version_from_url (pre @ CHR ''-'' # v @ CHR ''.'' # ext) =
      (if parse_i32 ext \<noteq> None then v @ CHR ''.'' # ext else v)
    \<and> get_version_from_url (pre @ CHR ''-'' # w) = (if CHR ''.'' \<in> set pre then w else [])
    \<and> get_version_from_url v = []"
proof (intro conjI)
  have a: "rev_index (CHR ''-'') (pre @ CHR ''-'' # v @ CHR ''.'' # ext) = Some (length (v @ CHR ''.'' # ext))"
    by (rule rev_index_last) (use assms in auto)
  have "rev_index (CHR ''.'') ((pre @ CHR ''-'' # v) @ CHR ''.'' # ext) = Some (length ext)"
    by (rule rev_index_last) (use assms in auto)
  then show "get_version_from_url (pre @ CHR ''-'' # v @ CHR ''.'' # ext) =
      (if parse_i32 ext \<noteq> None then v @ CHR ''.'' # ext else v)"
    using a by (simp add: get_version_from_url_def Let_def)
  have a: "rev_index (CHR ''-'') (pre @ CHR ''-'' # w) = Some (length w)"
    by (rule rev_index_last) (use assms in auto)
  show "get_version_from_url (pre @ CHR ''-'' # w) = (if CHR ''.'' \<in> set pre then w else [])"
  proof (cases "CHR ''.'' \<in> set pre")
    case True
    then obtain p1 p2 where p: "pre = p1 @ CHR ''.'' # p2" "CHR ''.'' \<notin> set p2"
      by (meson split_list_last)
    have "rev_index (CHR ''.'') (p1 @ CHR ''.'' # (p2 @ CHR ''-'' # w)) = Some (length (p2 @ CHR ''-'' # w))"
      by (rule rev_index_last) (use assms p in auto)
    then show ?thesis using a True p by (simp add: get_version_from_url_def Let_def)
  next
    case False
    then have "rev_index (CHR ''.'') (pre @ CHR ''-'' # w) = None"
      by (intro rev_index_None) (use assms in auto)
    then show ?thesis using a False by (simp add: get_version_from_url_def)
  qed
  show "get_version_from_url v = []"
    using assms(1) by (simp add: get_version_from_url_def rev_index_None)
qed

theorem version_from_url_witness:
  "get_version_from_url (''https://x.y/rustdesk'' @ CHR ''-'' # ''1.1'' @ CHR ''.'' # ''exe'') =
      (if parse_i32 ''exe'' \<noteq> None then ''1.1'' @ CHR ''.'' # ''exe'' else ''1.1'')
    \<and> get_version_from_url (''https://x.y/rustdesk'' @ CHR ''-'' # ''7'') =
      (if CHR ''.'' \<in> set ''https://x.y/rustdesk'' then ''7'' else [])
    \<and> get_version_from_url ''1.1'' = []"
  by (rule version_from_url) simp_all

section \<open>Generating \<open>version.rs\<close>\<close>

text \<open>What one line of \<open>Cargo.toml\<close> makes the loop write, if it is the version line.\<close>

definition version_line :: "string \<Rightarrow> string option" where
  "version_line line =
     (let ab = map trim (split_on (CHR ''='') line) in
      if length ab = 2 \<and> ab ! 0 = ''version''
      then Some (''pub const VERSION: &str = '' @ ab ! 1 @ '';'') else None)"

text \<open>The loop: unreadable lines are skipped, the first version line ends it.\<close>

fun version_write :: "(io_error + string) list \<Rightarrow> string option" where
  "version_write [] = None"
| "version_write (Inl e # ls) = version_write ls"
| "version_write (Inr l # ls) = (case version_line l of Some w \<Rightarrow> Some w | None \<Rightarrow> version_write ls)"

text \<open>
  The file is created before \<open>Cargo.toml\<close> is opened. The result is the outcome and what is passed to
  \<open>write_all\<close> on the created file (\<open>None\<close>: there is no file).
\<close>

definition gen_version :: "bool \<Rightarrow> io_error + (io_error + string) list \<Rightarrow> unit outcome \<times> string option" where
  "gen_version created cargo =
     (if \<not> created then (Panic, None)
      else case cargo of
        Inl e \<Rightarrow> (Panic, Some [])
      | Inr ls \<Rightarrow> (Ret (), Some (case version_write ls of None \<Rightarrow> [] | Some w \<Rightarrow> w)))"

lemma version_line_key:
  assumes "CHR ''='' \<notin> set key" "CHR ''='' \<notin> set val" "trim key = ''version''"
  shows "version_line (key @ CHR ''='' # val) = Some (''pub const VERSION: &str = '' @ trim val @ '';'')"
  using assms by (simp add: version_line_def split_on_append split_on_none)

lemma version_write_skip:
  "\<forall>l. Inr l \<in> set before \<longrightarrow> version_line l = None \<Longrightarrow> version_write (before @ ls) = version_write ls"
proof (induction before)
  case (Cons l before)
  then show ?case by (cases l) auto
qed simp

text \<open>
  \<open>gen_version\<close> writes the version constant with the value of the first line of \<open>Cargo.toml\<close> that is
  a version line; lines that cannot be read are skipped, and nothing panics.
\<close>

theorem gen_version_spec:
  assumes "CHR ''='' \<notin> set key" "CHR ''='' \<notin> set val" "trim key = ''version''"
    and "\<forall>l. Inr l \<in> set before \<longrightarrow> version_line l = None"
  shows "gen_version True (Inr (before @ Inr (key @ CHR ''='' # val) # after)) =
     (Ret (), Some (''pub const VERSION: &str = '' @ trim val @ '';''))"
  using version_line_key [OF assms(1-3)] version_write_skip [OF assms(4)]
  by (simp add: gen_version_def)

theorem gen_version_spec_witness:
  "gen_version True (Inr ([Inr ''[package]'', Inl (IoError InvalidData ''x'')] @
      Inr (''version '' @ CHR ''='' # '' 1.0'') # [Inr ''version=2''])) =
     (Ret (), Some (''pub const VERSION: &str = '' @ trim '' 1.0'' @ '';''))"
proof (rule gen_version_spec)
  show "\<forall>l. Inr l \<in> set [Inr ''[package]'', Inl (IoError InvalidData ''x'')] \<longrightarrow> version_line l = None"
    by (simp add: version_line_def)
  show "trim ''version '' = ''version''" by code_simp
qed simp_all

section \<open>Opening a socket\<close>

lemma last_socket_calls: "socket_calls unix addr tcp reuse = butlast (socket_calls unix addr tcp reuse) @ [Bind addr]"
  by (simp add: socket_calls_def Let_def butlast_append)

lemma Bind_not_earlier: "Bind addr \<notin> set (butlast (socket_calls unix addr tcp reuse))"
  by (simp add: socket_calls_def Let_def butlast_append split: socket_addr.splits)

lemma run_calls_reached:
  assumes "c \<in> set (fst (run_calls os (cs @ [c])))" "c \<notin> set cs"
  shows "fst (run_calls os (cs @ [c])) = cs @ [c] \<and> (\<forall>d \<in> set cs. os d = None)"
  using assms
proof (induction cs)
  case (Cons d cs)
  obtain made r where "run_calls os (cs @ [c]) = (made, r)" by (cases "run_calls os (cs @ [c])")
  then show ?case using Cons by (cases "os d") simp_all
qed (simp split: option.splits)

lemma run_calls_last:
  "\<forall>d \<in> set cs. os d = None \<Longrightarrow>
     snd (run_calls os (cs @ [c])) = (case os c of None \<Rightarrow> Inr () | Some e \<Rightarrow> Inl e)"
  by (induction cs) (auto split: option.splits prod.splits)

text \<open>
  \<open>new_socket\<close> binds last: if the bind call is made at all, the socket was created with the
  address's family and the wanted type, every reuse option asked for was set before, and all of
  these calls succeeded; the result is then that of the bind call.
\<close>

theorem new_socket_binds_last:
  assumes "Bind addr \<in> set (fst (new_socket unix os addr tcp reuse))"
  shows "fst (new_socket unix os addr tcp reuse) = socket_calls unix addr tcp reuse
    \<and> (\<forall>c \<in> set (butlast (socket_calls unix addr tcp reuse)). os c = None)
    \<and> snd (new_socket unix os addr tcp reuse) = (case os (Bind addr) of None \<Rightarrow> Inr () | Some e \<Rightarrow> Inl e)"
proof -
  let ?cs = "butlast (socket_calls unix addr tcp reuse)"
  have eq: "new_socket unix os addr tcp reuse = run_calls os (?cs @ [Bind addr])"
    using last_socket_calls [of unix addr tcp reuse] by (simp add: new_socket_def)
  have made: "fst (run_calls os (?cs @ [Bind addr])) = ?cs @ [Bind addr]" "\<forall>d \<in> set ?cs. os d = None"
    using run_calls_reached [of "Bind addr" os ?cs] assms Bind_not_earlier eq by auto
  have "snd (run_calls os (?cs @ [Bind addr])) = (case os (Bind addr) of None \<Rightarrow> Inr () | Some e \<Rightarrow> Inl e)"
    using made(2) by (rule run_calls_last)
  then show ?thesis using made eq last_socket_calls [of unix addr tcp reuse] by simp
qed

theorem new_socket_binds_last_witness:
  "fst (new_socket True (\<lambda>_. None) (V4 (0, 0, 0, 0) 21116) True True) =
      socket_calls True (V4 (0, 0, 0, 0) 21116) True True
    \<and> (\<forall>c \<in> set (butlast (socket_calls True (V4 (0, 0, 0, 0) 21116) True True)). (\<lambda>_. None) c = (None :: io_error option))
    \<and> snd (new_socket True (\<lambda>_. None) (V4 (0, 0, 0, 0) 21116) True True) =
      (case (\<lambda>_. None) (Bind (V4 (0, 0, 0, 0) 21116)) of None \<Rightarrow> Inr () | Some e \<Rightarrow> Inl e)"
  by (rule new_socket_binds_last) (simp add: new_socket_def socket_calls_def)

end
