(* ===== verification/Udp_Socket.thy ===== *)
theory Udp_Socket imports Rust_Prelude begin

text \<open>
  \<open>libs/hbb_common/src/udp.rs\<close>: the UDP socket, one message per datagram. The \<open>UdpFramed\<close> inside (with
  tokio's own byte codec, which does not frame) is an argument: \<open>usend\<close> sends one datagram, \<open>unext\<close>
  yields the next one with its sender.
\<close>

record 'u udp_env =
  usend :: "'u \<Rightarrow> bytes \<times> socket_addr \<Rightarrow> (io_error + unit) \<times> 'u"
  unext :: "'u \<Rightarrow> (io_error + bytes \<times> socket_addr) option \<times> 'u"

definition udp_new :: "(unit \<Rightarrow> io_error + 'u) \<Rightarrow> anyhow_error + 'u" where
  "udp_new bind = (case bind () of Inl e \<Rightarrow> Inl (Io e) | Inr u \<Rightarrow> Inr u)"

text \<open>With address reuse only the first resolved address is ever tried.\<close>

definition udp_new_reuse :: "(socket_addr \<Rightarrow> io_error + 'sk) \<Rightarrow> ('sk \<Rightarrow> io_error + 'u) \<Rightarrow>
    io_error + socket_addr list \<Rightarrow> anyhow_error + 'u" where
  "udp_new_reuse sock from_std addrs =
     (case addrs of
        Inl e \<Rightarrow> Inl (Io e)
      | Inr [] \<Rightarrow> Inl (Bail ''could not resolve to any address'')
      | Inr (a # _) \<Rightarrow>
          (case sock a of
             Inl e \<Rightarrow> Inl (Io e)
           | Inr sk \<Rightarrow> (case from_std sk of Inl e \<Rightarrow> Inl (Io e) | Inr u \<Rightarrow> Inr u)))"

definition udp_send_raw :: "'u udp_env \<Rightarrow> 'u \<Rightarrow> bytes \<Rightarrow> socket_addr \<Rightarrow> (anyhow_error + unit) \<times> 'u" where
  "udp_send_raw env u msg addr =
     (case usend env u (msg, addr) of (Inl e, u') \<Rightarrow> (Inl (Io e), u') | (Inr _, u') \<Rightarrow> (Inr (), u'))"

text \<open>\<open>written\<close> is the message's \<open>write_to_bytes\<close>, which is unwrapped.\<close>

definition udp_send :: "'u udp_env \<Rightarrow> 'u \<Rightarrow> string + bytes \<Rightarrow> socket_addr \<Rightarrow>
    ((anyhow_error + unit) \<times> 'u) outcome" where
  "udp_send env u written addr =
     (case written of Inl e \<Rightarrow> Panic | Inr msg \<Rightarrow> Ret (udp_send_raw env u msg addr))"

definition udp_next :: "'u udp_env \<Rightarrow> 'u \<Rightarrow> (io_error + bytes \<times> socket_addr) option \<times> 'u" where
  "udp_next env u = unext env u"

text \<open>\<open>late\<close>: the timer fires first and leaves the socket in this state.\<close>

definition udp_next_timeout :: "'u udp_env \<Rightarrow> 'u option \<Rightarrow> 'u \<Rightarrow>
    (io_error + bytes \<times> socket_addr) option \<times> 'u" where
  "udp_next_timeout env late u = (case late of Some u' \<Rightarrow> (None, u') | None \<Rightarrow> udp_next env u)"

end
