(* ===== verification/Rendezvous_Proto.thy ===== *)
theory Rendezvous_Proto imports Rust_Prelude begin

text \<open>
  \<open>libs/hbb_common/protos/rendezvous.proto\<close>: the messages between clients and the rendezvous server. The
  Rust types are generated from this file; parsing and serialising them is the protobuf library's and
  stays a parameter of the model. An enum field may hold a number the schema does not know; a
  sub-message or a oneof may be absent.
\<close>

datatype 'e enum_or_unknown = Known 'e | UnknownValue i32

datatype nat_type = UNKNOWN_NAT | ASYMMETRIC | SYMMETRIC

record register_peer =
  rp_id :: string
  rp_serial :: i32

record register_peer_response =
  request_pk :: bool

record punch_hole_request =
  ph_id :: string
  ph_nat_type :: "nat_type enum_or_unknown"

record punch_hole =
  hole_socket_addr :: bytes
  hole_relay_server :: string
  hole_nat_type :: "nat_type enum_or_unknown"

record test_nat_request =
  tn_serial :: i32

record config_update =
  cu_serial :: i32
  rendezvous_servers :: "string list"

record test_nat_response =
  tn_port :: i32
  tn_cu :: "config_update option"

record punch_hole_sent =
  phs_socket_addr :: bytes
  phs_id :: string
  phs_relay_server :: string
  phs_nat_type :: "nat_type enum_or_unknown"

record register_pk =
  rk_id :: string
  rk_uuid :: bytes
  rk_pk :: bytes

datatype register_pk_result = OK | UUID_MISMATCH

record register_pk_response =
  rk_result :: "register_pk_result enum_or_unknown"

datatype punch_hole_failure = ID_NOT_EXIST | OFFLINE

datatype punch_hole_response_union = PhrNatType "nat_type enum_or_unknown" | PhrIsLocal bool

record punch_hole_response =
  phr_socket_addr :: bytes
  phr_pk :: bytes
  phr_failure :: "punch_hole_failure enum_or_unknown"
  phr_relay_server :: string
  phr_union :: "punch_hole_response_union option"

record request_relay =
  rr_id :: string
  rr_uuid :: string
  rr_socket_addr :: bytes
  rr_relay_server :: string
  rr_secure :: bool

datatype relay_response_union = RelayId string | RelayPk bytes

record relay_response =
  rel_socket_addr :: bytes
  rel_uuid :: string
  rel_relay_server :: string
  rel_union :: "relay_response_union option"

record software_update =
  su_url :: string

record fetch_local_addr =
  fla_socket_addr :: bytes
  fla_relay_server :: string

record local_addr =
  la_socket_addr :: bytes
  la_local_addr :: bytes
  la_relay_server :: string
  la_id :: string

datatype rendezvous_union =
    RegisterPeer register_peer
  | RegisterPeerResponse register_peer_response
  | PunchHoleRequest punch_hole_request
  | PunchHole punch_hole
  | PunchHoleSent punch_hole_sent
  | PunchHoleResponse punch_hole_response
  | FetchLocalAddr fetch_local_addr
  | LocalAddr local_addr
  | ConfigureUpdate config_update
  | RegisterPk register_pk
  | RegisterPkResponse register_pk_response
  | SoftwareUpdate software_update
  | RequestRelay request_relay
  | RelayResponse relay_response
  | TestNatRequest test_nat_request
  | TestNatResponse test_nat_response

record rendezvous_message =
  msg_union :: "rendezvous_union option"

text \<open>The default values the constructors of the server start from.\<close>

definition request_relay_default :: request_relay where
  "request_relay_default =
     \<lparr>rr_id = [], rr_uuid = [], rr_socket_addr = [], rr_relay_server = [], rr_secure = False\<rparr>"

definition relay_response_default :: relay_response where
  "relay_response_default =
     \<lparr>rel_socket_addr = [], rel_uuid = [], rel_relay_server = [], rel_union = None\<rparr>"

definition register_peer_response_new :: register_peer_response where
  "register_peer_response_new = \<lparr>request_pk = False\<rparr>"

end
