(* ===== verification/Machine.thy ===== *)
theory Machine imports Main "HOL-Library.Multiset" begin

text \<open>
  Machines that consume events and emit outputs: running one over a list of events, and three ways to
  lift a fact about one step to every run. A step on an event the machine does not await is \<open>None\<close>.
\<close>

fun run_machine :: "('s \<Rightarrow> 'e \<Rightarrow> ('s \<times> 'o list) option) \<Rightarrow> 's \<Rightarrow> 'e list \<Rightarrow> ('s \<times> 'o list) option" where
  "run_machine step s [] = Some (s, [])"
| "run_machine step s (e # es) =
     (case step s e of
        None \<Rightarrow> None
      | Some (s', out) \<Rightarrow>
          (case run_machine step s' es of None \<Rightarrow> None | Some (s'', out') \<Rightarrow> Some (s'', out @ out')))"

lemma run_machine_Cons:
  "run_machine step s (e # es) = Some (s'', outs) \<longleftrightarrow>
     (\<exists>s' out out'. step s e = Some (s', out) \<and> run_machine step s' es = Some (s'', out') \<and> outs = out @ out')"
  by (auto split: option.splits)

lemma run_machine_append:
  "run_machine step s (es @ fs) =
     (case run_machine step s es of
        None \<Rightarrow> None
      | Some (s', out) \<Rightarrow>
          (case run_machine step s' fs of None \<Rightarrow> None | Some (s'', out') \<Rightarrow> Some (s'', out @ out')))"
  by (induction es arbitrary: s) (auto split: option.splits)

text \<open>Induction along a run that is possible.\<close>

lemma run_machine_induct [consumes 1, case_names Nil Cons]:
  assumes "run_machine step s es = Some (s', out)"
    and "\<And>s. P s [] s []"
    and "\<And>s e s1 out1 es s' out. step s e = Some (s1, out1) \<Longrightarrow> run_machine step s1 es = Some (s', out) \<Longrightarrow>
      P s1 es s' out \<Longrightarrow> P s (e # es) s' (out1 @ out)"
  shows "P s es s' out"
  using assms(1)
proof (induction es arbitrary: s out)
  case Nil
  then show ?case using assms(2) by simp
next
  case (Cons e es)
  then show ?case using assms(3) by (auto simp: run_machine_Cons simp del: run_machine.simps)
qed

declare run_machine.simps(2) [simp del]

text \<open>An invariant under the events of a kind.\<close>

locale machine_invariant =
  fixes step :: "'s \<Rightarrow> 'e \<Rightarrow> ('s \<times> 'o list) option"
    and inv :: "'s \<Rightarrow> bool"
    and admissible :: "'e \<Rightarrow> bool"
  assumes preserved: "inv s \<Longrightarrow> admissible e \<Longrightarrow> step s e = Some (s', out) \<Longrightarrow> inv s'"
begin

lemma run_preserves:
  assumes "run_machine step s es = Some (s', out)" "inv s" "\<forall>e \<in> set es. admissible e"
  shows "inv s'"
  using assms by (induction rule: run_machine_induct) (auto dest: preserved)

end

text \<open>A component of the state that is a function of the events: what the machine refines.\<close>

locale machine_view =
  fixes step :: "'s \<Rightarrow> 'e \<Rightarrow> ('s \<times> 'o list) option"
    and view :: "'s \<Rightarrow> 'v"
    and update :: "'e \<Rightarrow> 'v \<Rightarrow> 'v"
  assumes step_view: "step s e = Some (s', out) \<Longrightarrow> view s' = update e (view s)"
begin

lemma run_view:
  assumes "run_machine step s es = Some (s', out)"
  shows "view s' = fold update es (view s)"
  using assms by (induction rule: run_machine_induct) (auto simp: step_view)

end

text \<open>Resources that events bring in and outputs give back.\<close>

locale machine_ledger =
  fixes step :: "'s \<Rightarrow> 'e \<Rightarrow> ('s \<times> 'o list) option"
    and held :: "'s \<Rightarrow> 'r multiset"
    and gain :: "'e \<Rightarrow> 'r multiset"
    and loss :: "'o \<Rightarrow> 'r multiset"
  assumes step_ledger: "step s e = Some (s', out) \<Longrightarrow> held s' + sum_list (map loss out) = held s + gain e"
begin

lemma run_ledger:
  assumes "run_machine step s es = Some (s', out)"
  shows "held s' + sum_list (map loss out) = held s + sum_list (map gain es)"
  using assms
proof (induction rule: run_machine_induct)
  case (Cons s e s1 out1 es s' out)
  have "held s' + sum_list (map loss (out1 @ out)) = held s1 + sum_list (map gain es) + sum_list (map loss out1)"
    using Cons(3) by (simp add: ac_simps)
  also have "\<dots> = held s + gain e + sum_list (map gain es)"
    using step_ledger [OF Cons(1)] by (simp add: ac_simps)
  finally show ?case by (simp add: ac_simps)
qed simp

end

text \<open>
  A machine that refines another: a step of the concrete machine is some steps of the abstract one, with
  the same visible outputs. The abstract events of a whole run are those of its steps.
\<close>

fun trace_of :: "('s \<Rightarrow> 'e \<Rightarrow> ('s \<times> 'o list) option) \<Rightarrow> ('s \<Rightarrow> 'e \<Rightarrow> 'r list) \<Rightarrow> 's \<Rightarrow> 'e list \<Rightarrow> 'r list" where
  "trace_of step reqs s [] = []"
| "trace_of step reqs s (e # es) =
     reqs s e @ (case step s e of Some (s', out) \<Rightarrow> trace_of step reqs s' es | None \<Rightarrow> [])"

locale machine_refinement =
  fixes step :: "'s \<Rightarrow> 'e \<Rightarrow> ('s \<times> 'o list) option"
    and astep :: "'a \<Rightarrow> 'r \<Rightarrow> ('a \<times> 'p list) option"
    and abstraction :: "'s \<Rightarrow> 'a"
    and reqs :: "'s \<Rightarrow> 'e \<Rightarrow> 'r list"
    and seen :: "'o \<Rightarrow> 'p list"
  assumes simulates: "step s e = Some (s', out) \<Longrightarrow>
    run_machine astep (abstraction s) (reqs s e) = Some (abstraction s', concat (map seen out))"
begin

lemma run_refines:
  assumes "run_machine step s es = Some (s', out)"
  shows "run_machine astep (abstraction s) (trace_of step reqs s es) = Some (abstraction s', concat (map seen out))"
  using assms
proof (induction rule: run_machine_induct)
  case (Cons s e s1 out1 es s' out)
  then show ?case by (simp add: run_machine_append simulates [OF Cons(1)])
qed simp

end

end
