(* ===== verification/Server.thy ===== *)
theory Server imports Rendezvous_Proto Machine begin

text \<open>
  \<open>src/main.rs\<close>: the server. It owns a UDP socket, where clients register; a listener, where they ask
  for a connection; and a relay listener, where the two ends of a relayed session connect. It runs on
  one thread, so its state changes only at the points where an awaited future yields. The model is the
  state machine between these points: \<open>phase\<close> says what is awaited, an event is what the awaited future
  yields, and a step returns the new state and the calls made on sockets and streams.

  Parsing a message and the streams themselves are parameters: \<open>parse\<close> is \<open>parse_from_bytes\<close>, a stream
  is a name of type \<open>'c\<close>. Results of sends are ignored by the code (\<open>.ok()\<close>), so a send is an output
  only. \<open>Close\<close> is the end of a stream's scope.

  \<open>tokio::select!\<close> disables a branch whose pattern does not match until the next round, and panics when
  every branch is disabled; the two flags of \<open>Serving\<close> and the flag of \<open>Relaying\<close> record that.
\<close>

section \<open>States, events, outputs\<close>

datatype 'c phase =
    Serving bool bool \<comment> \<open>the UDP branch and the accept branch are disabled\<close>
  | FirstMessage 'c socket_addr
  | AcceptFirst 'c 'c \<comment> \<open>the requester's and the responder's stream, kept alive meanwhile\<close>
  | HelloFirst 'c 'c 'c
  | AcceptSecond 'c 'c 'c
  | HelloSecond 'c 'c 'c 'c
  | Relaying bool 'c 'c 'c 'c
  | Crashed

record 'c server =
  id_map :: "string \<rightharpoonup> socket_addr"
  saved_stream :: "'c option"
  phase :: "'c phase"

datatype 'c event =
    UdpNext "(io_error + bytes \<times> socket_addr) option"
  | Accepted "io_error + 'c \<times> socket_addr"
  | FirstNext "(io_error + bytes) option"
  | RelayAccepted "io_error + 'c \<times> socket_addr"
  | PeerNext "(io_error + bytes) option"
  | StreamNext "(io_error + bytes) option"

datatype 'c action =
    UdpSend rendezvous_message socket_addr
  | TcpSend 'c rendezvous_message
  | TcpSendBytes 'c bytes
  | SetRaw 'c
  | Close 'c

record server_env =
  parse :: "bytes \<Rightarrow> string + rendezvous_message"
  relay_server :: string

section \<open>Handlers\<close>

definition handle_udp :: "server_env \<Rightarrow> bytes \<Rightarrow> socket_addr \<Rightarrow> (string \<rightharpoonup> socket_addr) \<Rightarrow>
    (string \<rightharpoonup> socket_addr) \<times> 'c action list" where
  "handle_udp env bs addr m =
     (case parse env bs of
        Inl e \<Rightarrow> (m, [])
      | Inr msg_in \<Rightarrow>
          (case msg_union msg_in of
             Some (RegisterPeer rp) \<Rightarrow>
               (m(rp_id rp \<mapsto> addr),
                [UdpSend \<lparr>msg_union = Some (RegisterPeerResponse register_peer_response_new)\<rparr> addr])
           | Some (RegisterPk _) \<Rightarrow>
               (m, [UdpSend \<lparr>msg_union = Some (RegisterPkResponse \<lparr>rk_result = Known OK\<rparr>)\<rparr> addr])
           | _ \<Rightarrow> (m, [])))"

definition request_relay_msg :: "server_env \<Rightarrow> rendezvous_message" where
  "request_relay_msg env =
     \<lparr>msg_union = Some (RequestRelay (request_relay_default\<lparr>rr_relay_server := relay_server env\<rparr>))\<rparr>"

definition relay_response_msg :: "server_env \<Rightarrow> rendezvous_message" where
  "relay_response_msg env =
     \<lparr>msg_union = Some (RelayResponse (relay_response_default\<lparr>rel_relay_server := relay_server env\<rparr>))\<rparr>"

text \<open>
  The first message of an accepted stream, in the main loop: a punch-hole request for a registered
  peer saves the stream (the one saved before goes out of scope), a relay response is passed on to the
  saved stream and starts a relay, anything else ends the stream.
\<close>

definition handle_first :: "server_env \<Rightarrow> 'c server \<Rightarrow> 'c \<Rightarrow> (io_error + bytes) option \<Rightarrow>
    'c server \<times> 'c action list" where
  "handle_first env s stream res =
     (let ended = (s\<lparr>phase := Serving False False\<rparr>, [Close stream]) in
      case res of
        Some (Inr bs) \<Rightarrow>
          (case parse env bs of
             Inr msg_in \<Rightarrow>
               (case msg_union msg_in of
                  Some (PunchHoleRequest ph) \<Rightarrow>
                    (case id_map s (ph_id ph) of
                       Some addr \<Rightarrow>
                         (s\<lparr>saved_stream := Some stream, phase := Serving False False\<rparr>,
                          UdpSend (request_relay_msg env) addr #
                          (case saved_stream s of Some old \<Rightarrow> [Close old] | None \<Rightarrow> []))
                     | None \<Rightarrow> ended)
                | Some (RelayResponse _) \<Rightarrow>
                    (case saved_stream s of
                       Some requester \<Rightarrow>
                         (s\<lparr>saved_stream := None, phase := AcceptFirst requester stream\<rparr>,
                          [TcpSend requester (relay_response_msg env)])
                     | None \<Rightarrow> ended)
                | _ \<Rightarrow> ended)
           | Inl e \<Rightarrow> ended)
      | _ \<Rightarrow> ended)"

section \<open>Steps\<close>

text \<open>A step on an event that is not awaited in the current phase is \<open>None\<close>.\<close>

fun server_step :: "server_env \<Rightarrow> 'c server \<Rightarrow> 'c event \<Rightarrow> ('c server \<times> 'c action list) option" where
  "server_step env s e =
     (case (phase s, e) of
        (Serving u d, UdpNext res) \<Rightarrow>
          if u then None
          else (case res of
                  Some (Inr (bs, addr)) \<Rightarrow>
                    (case handle_udp env bs addr (id_map s) of (m, acts) \<Rightarrow>
                       Some (s\<lparr>id_map := m, phase := Serving False False\<rparr>, acts))
                | _ \<Rightarrow> Some (s\<lparr>phase := if d then Crashed else Serving True d\<rparr>, []))
      | (Serving u d, Accepted res) \<Rightarrow>
          if d then None
          else (case res of
                  Inr (c, addr) \<Rightarrow> Some (s\<lparr>phase := FirstMessage c addr\<rparr>, [])
                | Inl err \<Rightarrow> Some (s\<lparr>phase := if u then Crashed else Serving u True\<rparr>, []))
      | (FirstMessage c addr, FirstNext res) \<Rightarrow> Some (handle_first env s c res)
      | (AcceptFirst req rsp, RelayAccepted res) \<Rightarrow>
          (case res of
             Inr (a, _) \<Rightarrow> Some (s\<lparr>phase := HelloFirst req rsp a\<rparr>, [])
           | Inl err \<Rightarrow> Some (s\<lparr>phase := Serving False False\<rparr>, [Close req, Close rsp]))
      | (HelloFirst req rsp a, FirstNext _) \<Rightarrow> Some (s\<lparr>phase := AcceptSecond req rsp a\<rparr>, [])
      | (AcceptSecond req rsp a, RelayAccepted res) \<Rightarrow>
          (case res of
             Inr (b, _) \<Rightarrow> Some (s\<lparr>phase := HelloSecond req rsp a b\<rparr>, [])
           | Inl err \<Rightarrow> Some (s\<lparr>phase := Serving False False\<rparr>, [Close a, Close req, Close rsp]))
      | (HelloSecond req rsp a b, FirstNext _) \<Rightarrow>
          Some (s\<lparr>phase := Relaying False req rsp a b\<rparr>, [SetRaw b, SetRaw a])
      | (Relaying u req rsp a b, UdpNext res) \<Rightarrow>
          if u then None
          else (case res of
                  Some (Inr (bs, addr)) \<Rightarrow>
                    (case handle_udp env bs addr (id_map s) of (m, acts) \<Rightarrow>
                       Some (s\<lparr>id_map := m, phase := Relaying False req rsp a b\<rparr>, acts))
                | _ \<Rightarrow> Some (s\<lparr>phase := Relaying True req rsp a b\<rparr>, []))
      | (Relaying u req rsp a b, PeerNext res) \<Rightarrow>
          (case res of
             Some (Inr bs) \<Rightarrow> Some (s\<lparr>phase := Relaying False req rsp a b\<rparr>, [TcpSendBytes a bs])
           | _ \<Rightarrow> Some (s\<lparr>phase := Serving False False\<rparr>, [Close a, Close b, Close req, Close rsp]))
      | (Relaying u req rsp a b, StreamNext res) \<Rightarrow>
          (case res of
             Some (Inr bs) \<Rightarrow> Some (s\<lparr>phase := Relaying False req rsp a b\<rparr>, [TcpSendBytes b bs])
           | _ \<Rightarrow> Some (s\<lparr>phase := Serving False False\<rparr>, [Close a, Close b, Close req, Close rsp]))
      | _ \<Rightarrow> None)"

text \<open>Start-up: the three sockets and the environment variable are unwrapped in this order.\<close>

definition server_init :: "'c server" where
  "server_init = \<lparr>id_map = Map.empty, saved_stream = None, phase = Serving False False\<rparr>"

definition server_start :: "(bytes \<Rightarrow> string + rendezvous_message) \<Rightarrow> anyhow_error + 'u \<Rightarrow>
    anyhow_error + 'l \<Rightarrow> anyhow_error + 'l \<Rightarrow> string option \<Rightarrow> (server_env \<times> 'c server) outcome" where
  "server_start prs socket listener rlistener ip =
     (case (socket, listener, rlistener, ip) of
        (Inr _, Inr _, Inr _, Some r) \<Rightarrow> Ret (\<lparr>parse = prs, relay_server = r\<rparr>, server_init)
      | _ \<Rightarrow> Panic)"

declare server_step.simps [simp del]

section \<open>The transitions as a relation\<close>

text \<open>One rule per transition; \<open>server_step_iff\<close> below shows that this is \<open>server_step\<close>.\<close>

inductive server_trans :: "server_env \<Rightarrow> 'c server \<Rightarrow> 'c event \<Rightarrow> 'c server \<Rightarrow> 'c action list \<Rightarrow> bool"
  for env :: server_env where
  Udp: "phase s = Serving False d \<Longrightarrow> handle_udp env bs addr (id_map s) = (m, out) \<Longrightarrow>
    server_trans env s (UdpNext (Some (Inr (bs, addr)))) (s\<lparr>id_map := m, phase := Serving False False\<rparr>) out"
| UdpFailed: "phase s = Serving False d \<Longrightarrow> \<forall>x. res \<noteq> Some (Inr x) \<Longrightarrow>
    server_trans env s (UdpNext res) (s\<lparr>phase := if d then Crashed else Serving True d\<rparr>) []"
| Accept: "phase s = Serving u False \<Longrightarrow>
    server_trans env s (Accepted (Inr (c, addr))) (s\<lparr>phase := FirstMessage c addr\<rparr>) []"
| AcceptFailed: "phase s = Serving u False \<Longrightarrow>
    server_trans env s (Accepted (Inl err)) (s\<lparr>phase := if u then Crashed else Serving u True\<rparr>) []"
| First: "phase s = FirstMessage c addr \<Longrightarrow> handle_first env s c res = (s', out) \<Longrightarrow>
    server_trans env s (FirstNext res) s' out"
| RelayFirst: "phase s = AcceptFirst req rsp \<Longrightarrow>
    server_trans env s (RelayAccepted (Inr (a, addr))) (s\<lparr>phase := HelloFirst req rsp a\<rparr>) []"
| RelayFirstFailed: "phase s = AcceptFirst req rsp \<Longrightarrow>
    server_trans env s (RelayAccepted (Inl err)) (s\<lparr>phase := Serving False False\<rparr>) [Close req, Close rsp]"
| Hello: "phase s = HelloFirst req rsp a \<Longrightarrow>
    server_trans env s (FirstNext res) (s\<lparr>phase := AcceptSecond req rsp a\<rparr>) []"
| RelaySecond: "phase s = AcceptSecond req rsp a \<Longrightarrow>
    server_trans env s (RelayAccepted (Inr (b, addr))) (s\<lparr>phase := HelloSecond req rsp a b\<rparr>) []"
| RelaySecondFailed: "phase s = AcceptSecond req rsp a \<Longrightarrow>
    server_trans env s (RelayAccepted (Inl err)) (s\<lparr>phase := Serving False False\<rparr>) [Close a, Close req, Close rsp]"
| HelloBoth: "phase s = HelloSecond req rsp a b \<Longrightarrow>
    server_trans env s (FirstNext res) (s\<lparr>phase := Relaying False req rsp a b\<rparr>) [SetRaw b, SetRaw a]"
| RelayUdp: "phase s = Relaying False req rsp a b \<Longrightarrow> handle_udp env bs addr (id_map s) = (m, out) \<Longrightarrow>
    server_trans env s (UdpNext (Some (Inr (bs, addr))))
      (s\<lparr>id_map := m, phase := Relaying False req rsp a b\<rparr>) out"
| RelayUdpFailed: "phase s = Relaying False req rsp a b \<Longrightarrow> \<forall>x. res \<noteq> Some (Inr x) \<Longrightarrow>
    server_trans env s (UdpNext res) (s\<lparr>phase := Relaying True req rsp a b\<rparr>) []"
| Peer: "phase s = Relaying u req rsp a b \<Longrightarrow>
    server_trans env s (PeerNext (Some (Inr bs))) (s\<lparr>phase := Relaying False req rsp a b\<rparr>) [TcpSendBytes a bs]"
| PeerEnd: "phase s = Relaying u req rsp a b \<Longrightarrow> \<forall>x. res \<noteq> Some (Inr x) \<Longrightarrow>
    server_trans env s (PeerNext res) (s\<lparr>phase := Serving False False\<rparr>) [Close a, Close b, Close req, Close rsp]"
| Stream: "phase s = Relaying u req rsp a b \<Longrightarrow>
    server_trans env s (StreamNext (Some (Inr bs))) (s\<lparr>phase := Relaying False req rsp a b\<rparr>) [TcpSendBytes b bs]"
| StreamEnd: "phase s = Relaying u req rsp a b \<Longrightarrow> \<forall>x. res \<noteq> Some (Inr x) \<Longrightarrow>
    server_trans env s (StreamNext res) (s\<lparr>phase := Serving False False\<rparr>) [Close a, Close b, Close req, Close rsp]"

lemma server_trans_step: "server_trans env s e s' out \<Longrightarrow> server_step env s e = Some (s', out)"
  by (cases rule: server_trans.cases, assumption)
    (simp_all add: server_step.simps split: option.split sum.split)

lemma result_cases: "(\<exists>x. res = Some (Inr x)) \<or> (\<forall>x. res \<noteq> Some (Inr x))"
  by blast

lemma not_item: "(case res of Some (Inr x) \<Rightarrow> f x | _ \<Rightarrow> g) = g" if "\<forall>x. res \<noteq> Some (Inr x)"
  using that by (auto split: option.split sum.split)

lemma udp_step_trans:
  assumes "server_step env s (UdpNext res) = Some (s', out)"
  shows "server_trans env s (UdpNext res) s' out"
proof (cases "\<exists>x. res = Some (Inr x)")
  case True
  then obtain bs addr where "res = Some (Inr (bs, addr))" by auto
  then show ?thesis using assms
    by (cases "phase s") (auto simp: server_step.simps split: if_splits prod.splits intro: server_trans.intros)
next
  case False
  then have no: "\<forall>x. res \<noteq> Some (Inr x)" by blast
  show ?thesis
  proof (cases "phase s")
    case (Serving u d)
    then show ?thesis using assms no server_trans.UdpFailed [of s d res env]
      by (auto simp: server_step.simps not_item [OF no] split: if_splits)
  next
    case (Relaying u req rsp a b)
    then show ?thesis using assms no
      by (auto simp: server_step.simps not_item [OF no] split: if_splits intro: server_trans.intros)
  qed (use assms in \<open>simp_all add: server_step.simps\<close>)
qed

text \<open>An end of the relay goes on or stops it.\<close>

lemma relay_step_trans:
  assumes "server_step env s e = Some (s', out)" "e = PeerNext res \<or> e = StreamNext res"
  shows "server_trans env s e s' out"
proof (cases "\<exists>x. res = Some (Inr x)")
  case True
  then show ?thesis using assms
    by (cases "phase s") (auto simp: server_step.simps intro: server_trans.intros)
next
  case False
  then have no: "\<forall>x. res \<noteq> Some (Inr x)" by blast
  then show ?thesis using assms
    by (cases "phase s") (auto simp: server_step.simps not_item [OF no] intro: server_trans.intros)
qed

lemma server_step_trans:
  assumes "server_step env s e = Some (s', out)"
  shows "server_trans env s e s' out"
proof (cases e)
  case (UdpNext res)
  then show ?thesis using assms udp_step_trans by simp
next
  case (Accepted res)
  show ?thesis
  proof (cases "phase s")
    case (Serving u d)
    then show ?thesis using assms Accepted server_trans.AcceptFailed [of s u env]
      by (cases res) (auto simp: server_step.simps split: if_splits intro: server_trans.intros)
  qed (use assms Accepted in \<open>simp_all add: server_step.simps\<close>)
next
  case (FirstNext res)
  then show ?thesis using assms
    by (cases "phase s") (auto simp: server_step.simps intro: server_trans.intros)
next
  case (RelayAccepted res)
  then show ?thesis using assms
    by (cases "phase s"; cases res) (auto simp: server_step.simps intro: server_trans.intros)
qed (use assms relay_step_trans [OF assms] in simp_all)

lemma server_step_iff: "server_step env s e = Some (s', out) \<longleftrightarrow> server_trans env s e s' out"
  using server_trans_step server_step_trans by blast

inductive_cases server_transE: "server_trans env s e s' out"

lemmas server_stepE = server_step_trans [THEN server_transE]

text \<open>The states a run of the server can be in.\<close>

inductive reachable :: "server_env \<Rightarrow> 'c server \<Rightarrow> bool" for env :: server_env where
  Start: "reachable env server_init"
| Step: "reachable env s \<Longrightarrow> server_trans env s e s' out \<Longrightarrow> reachable env s'"

lemma run_reachable:
  assumes "run_machine (server_step env) s es = Some (s', out)" "reachable env s"
  shows "reachable env s'"
  using assms by (induction rule: run_machine_induct) (auto dest: server_step_trans intro: reachable.Step)

end
