(* ===== verification/Server_Props.thy ===== *)
theory Server_Props imports Server begin

text \<open>
  What the server promises over whole runs: which addresses it knows, where it sends datagrams, what
  a relay forwards, what happens to every connection it accepts, and when it stops.
\<close>

section \<open>Handlers\<close>

lemma handle_udp_cases:
  assumes "handle_udp env bs addr m = (m', out)"
  obtains (Register) rp where "parse env bs = Inr \<lparr>msg_union = Some (RegisterPeer rp)\<rparr>" "m' = m(rp_id rp \<mapsto> addr)"
      "out = [UdpSend \<lparr>msg_union = Some (RegisterPeerResponse register_peer_response_new)\<rparr> addr]"
    | (Pk) rk where "parse env bs = Inr \<lparr>msg_union = Some (RegisterPk rk)\<rparr>" "m' = m"
      "out = [UdpSend \<lparr>msg_union = Some (RegisterPkResponse \<lparr>rk_result = Known OK\<rparr>)\<rparr> addr]"
    | (Other) "m' = m" "out = []"
      "\<forall>rp. parse env bs \<noteq> Inr \<lparr>msg_union = Some (RegisterPeer rp)\<rparr>"
      "\<forall>rk. parse env bs \<noteq> Inr \<lparr>msg_union = Some (RegisterPk rk)\<rparr>"
proof (cases "parse env bs")
  case (Inl e)
  then show ?thesis using assms Other by (simp add: handle_udp_def)
next
  case (Inr msg)
  obtain u where msg: "msg = \<lparr>msg_union = u\<rparr>" by (cases msg)
  show ?thesis
  proof (cases u)
    case None
    then show ?thesis using assms Other Inr msg by (simp add: handle_udp_def)
  next
    case (Some v)
    then show ?thesis using assms Register Pk Other Inr msg
      by (cases v) (auto simp: handle_udp_def)
  qed
qed

text \<open>What the first message of an accepted stream leads to.\<close>

lemma handle_first_cases:
  assumes "handle_first env s c res = (s', out)"
  obtains (Punch) bs ph addr where "res = Some (Inr bs)" "parse env bs = Inr \<lparr>msg_union = Some (PunchHoleRequest ph)\<rparr>"
      "id_map s (ph_id ph) = Some addr" "s' = s\<lparr>saved_stream := Some c, phase := Serving False False\<rparr>"
      "out = UdpSend (request_relay_msg env) addr # (case saved_stream s of Some old \<Rightarrow> [Close old] | None \<Rightarrow> [])"
    | (Respond) bs rr requester where "res = Some (Inr bs)"
      "parse env bs = Inr \<lparr>msg_union = Some (RelayResponse rr)\<rparr>" "saved_stream s = Some requester"
      "s' = s\<lparr>saved_stream := None, phase := AcceptFirst requester c\<rparr>"
      "out = [TcpSend requester (relay_response_msg env)]"
    | (End) "s' = s\<lparr>phase := Serving False False\<rparr>" "out = [Close c]"
proof (cases "\<exists>bs msg. res = Some (Inr bs) \<and> parse env bs = Inr msg")
  case False
  then have "s' = s\<lparr>phase := Serving False False\<rparr> \<and> out = [Close c]"
    using assms by (auto simp: handle_first_def Let_def split: option.splits sum.splits)
  then show ?thesis using End by simp
next
  case True
  then obtain bs msg where res: "res = Some (Inr bs)" and msg: "parse env bs = Inr msg" by blast
  obtain u where u: "msg = \<lparr>msg_union = u\<rparr>" by (cases msg)
  show ?thesis
  proof (cases u)
    case None
    then show ?thesis using assms End res msg u by (simp add: handle_first_def)
  next
    case (Some v)
    show ?thesis
    proof (cases v)
      case (PunchHoleRequest ph)
      then show ?thesis using assms End Punch res msg u Some
        by (cases "id_map s (ph_id ph)") (simp_all add: handle_first_def)
    next
      case (RelayResponse rr)
      then show ?thesis using assms End Respond res msg u Some
        by (cases "saved_stream s") (simp_all add: handle_first_def)
    qed (use assms End res msg u Some in \<open>simp_all add: handle_first_def\<close>)
  qed
qed

lemma handle_first_id_map: "handle_first env s c res = (s', out) \<Longrightarrow> id_map s' = id_map s"
  by (erule handle_first_cases) simp_all

section \<open>A session to run\<close>

definition demo_env :: server_env where
  "demo_env =
     \<lparr>parse = (\<lambda>bs. if bs = [1] then Inr \<lparr>msg_union = Some (RegisterPeer \<lparr>rp_id = ''a'', rp_serial = 0\<rparr>)\<rparr>
         else if bs = [2] then Inr \<lparr>msg_union = Some (PunchHoleRequest \<lparr>ph_id = ''a'', ph_nat_type = Known UNKNOWN_NAT\<rparr>)\<rparr>
         else if bs = [3] then Inr \<lparr>msg_union = Some (RelayResponse relay_response_default)\<rparr>
         else Inl ''bad''),
      relay_server = ''relay''\<rparr>"

definition demo_addr :: "8 word \<Rightarrow> socket_addr" where
  "demo_addr n = V4 (10, 0, 0, n) 21116"

text \<open>A session from registration to relay, with streams named by numbers.\<close>

definition demo_session :: "nat event list" where
  "demo_session =
     [UdpNext (Some (Inr ([1], demo_addr 1))), Accepted (Inr (1, demo_addr 2)), FirstNext (Some (Inr [2])),
      Accepted (Inr (2, demo_addr 1)), FirstNext (Some (Inr [3])),
      RelayAccepted (Inr (3, demo_addr 1)), FirstNext None, RelayAccepted (Inr (4, demo_addr 2)), FirstNext None]"

lemma demo_session_run:
  "run_machine (server_step demo_env) server_init demo_session =
     Some (\<lparr>id_map = [''a'' \<mapsto> demo_addr 1], saved_stream = None, phase = Relaying False 1 2 3 4\<rparr>,
       [UdpSend \<lparr>msg_union = Some (RegisterPeerResponse register_peer_response_new)\<rparr> (demo_addr 1),
        UdpSend (request_relay_msg demo_env) (demo_addr 1), TcpSend 1 (relay_response_msg demo_env), SetRaw 4, SetRaw 3])"
  by (simp add: demo_session_def run_machine.simps(2) server_step.simps server_init_def handle_udp_def
      handle_first_def demo_env_def)

section \<open>The registered addresses\<close>

text \<open>The registrations among the events, in order.\<close>

fun registration :: "server_env \<Rightarrow> 'c event \<Rightarrow> (string \<times> socket_addr) list" where
  "registration env (UdpNext (Some (Inr (bs, addr)))) =
     (case parse env bs of
        Inr msg \<Rightarrow> (case msg_union msg of Some (RegisterPeer rp) \<Rightarrow> [(rp_id rp, addr)] | _ \<Rightarrow> [])
      | Inl _ \<Rightarrow> [])"
| "registration env _ = []"

definition registrations :: "server_env \<Rightarrow> 'c event list \<Rightarrow> (string \<times> socket_addr) list" where
  "registrations env es = concat (map (registration env) es)"

lemma registrations_simps [simp]:
  "registrations env [] = []"
  "registrations env (e # es) = registration env e @ registrations env es"
  by (simp_all add: registrations_def)

lemma registration_not_item [simp]: "\<forall>x. res \<noteq> Some (Inr x) \<Longrightarrow> registration env (UdpNext res) = []"
  by (cases res; simp; case_tac a) auto

lemma registration_other:
  assumes "\<forall>rp. parse env bs \<noteq> Inr \<lparr>msg_union = Some (RegisterPeer rp)\<rparr>"
  shows "registration env (UdpNext (Some (Inr (bs, addr)))) = []"
proof (cases "parse env bs")
  case (Inr msg)
  then show ?thesis using assms
    by (cases msg) (auto split: option.split rendezvous_union.split)
qed simp

lemma registration_register:
  "parse env bs = Inr \<lparr>msg_union = Some (RegisterPeer rp)\<rparr> \<Longrightarrow>
     registration env (UdpNext (Some (Inr (bs, addr)))) = [(rp_id rp, addr)]"
  by simp

declare registration.simps(1) [simp del]

lemma handle_udp_registration:
  "handle_udp env bs addr m = (m', out) \<Longrightarrow>
     m' = m ++ map_of (rev (registration env (UdpNext (Some (Inr (bs, addr))))))"
  by (erule handle_udp_cases) (simp_all add: registration_other registration_register)

interpretation address_book: machine_view "server_step env" id_map
  "\<lambda>e m. m ++ map_of (rev (registration env e))"
proof
  fix s s' :: "'c server" and e out
  assume "server_step env s e = Some (s', out)"
  then show "id_map s' = id_map s ++ map_of (rev (registration env e))"
    by (rule server_stepE) (auto dest: handle_udp_registration handle_first_id_map)
qed

lemma fold_registration:
  "fold (\<lambda>e m. m ++ map_of (rev (registration env e))) es m = m ++ map_of (rev (registrations env es))"
  by (induction es arbitrary: m) (simp_all add: map_add_assoc)

text \<open>C9: The server's address book refines the list of registrations: whatever else happens (requests,
  sessions, failures), after any run from the start an id maps to the address its last registration
  came from, and to nothing when no datagram registered it.\<close>

theorem registered_addresses:
  assumes "run_machine (server_step env) server_init es = Some (s', out)"
  shows "id_map s' = map_of (rev (registrations env es))"
  using address_book.run_view [OF assms] by (simp add: fold_registration server_init_def)

theorem registered_addresses_witness: "[''a'' \<mapsto> demo_addr 1] = map_of (rev (registrations demo_env demo_session))"
  using registered_addresses [OF demo_session_run] by simp

section \<open>Datagrams\<close>

text \<open>
  The datagrams that justify sending \<open>msg\<close> to \<open>x\<close>: a registration from \<open>x\<close>, which is answered and
  makes \<open>x\<close> a peer that can be told to use the relay, or a key from \<open>x\<close>, which is acknowledged.
\<close>

definition justifies :: "server_env \<Rightarrow> 'c event \<Rightarrow> rendezvous_message \<Rightarrow> socket_addr \<Rightarrow> bool" where
  "justifies env e msg x =
     (\<exists>bs u. e = UdpNext (Some (Inr (bs, x))) \<and> parse env bs = Inr \<lparr>msg_union = Some u\<rparr> \<and>
        (case u of
           RegisterPeer _ \<Rightarrow>
             msg = \<lparr>msg_union = Some (RegisterPeerResponse register_peer_response_new)\<rparr> \<or> msg = request_relay_msg env
         | RegisterPk _ \<Rightarrow> msg = \<lparr>msg_union = Some (RegisterPkResponse \<lparr>rk_result = Known OK\<rparr>)\<rparr>
         | _ \<Rightarrow> False))"

lemma registration_justifies:
  assumes "(i, x) \<in> set (registration env e)"
  shows "justifies env e (request_relay_msg env) x"
proof (cases "\<exists>bs addr. e = UdpNext (Some (Inr (bs, addr)))")
  case True
  then obtain bs addr where e: "e = UdpNext (Some (Inr (bs, addr)))" by blast
  then show ?thesis
  proof (cases "\<exists>rp. parse env bs = Inr \<lparr>msg_union = Some (RegisterPeer rp)\<rparr>")
    case True
    then show ?thesis using assms e by (auto simp: registration_register justifies_def)
  next
    case False
    then have "registration env e = []" using e by (simp add: registration_other)
    then show ?thesis using assms by simp
  qed
next
  case False
  have "registration env e = []"
    using False by (cases "(env, e)" rule: registration.cases) auto
  then show ?thesis using assms by simp
qed

lemma handle_udp_justified:
  "handle_udp env bs addr m = (m', out) \<Longrightarrow> UdpSend msg x \<in> set out \<Longrightarrow>
     justifies env (UdpNext (Some (Inr (bs, addr)))) msg x"
  by (erule handle_udp_cases) (simp_all add: justifies_def)

lemma step_justified:
  assumes "server_step env s e = Some (s', out)" "UdpSend msg x \<in> set out"
  shows "justifies env e msg x \<or> msg = request_relay_msg env \<and> x \<in> ran (id_map s)"
  using assms
  by (elim server_stepE)
    (auto dest: handle_udp_justified elim!: handle_first_cases intro: ranI split: option.splits)

lemma run_justified:
  assumes "run_machine (server_step env) s es = Some (s', out)" "UdpSend msg x \<in> set out"
  shows "(\<exists>e \<in> set es. justifies env e msg x) \<or> msg = request_relay_msg env \<and> x \<in> ran (id_map s)"
  using assms
proof (induction rule: run_machine_induct)
  case (Cons s e s1 out1 es s' out)
  consider "UdpSend msg x \<in> set out1" | "UdpSend msg x \<in> set out" using Cons.prems by auto
  then show ?case
  proof cases
    case 1
    then show ?thesis using step_justified [OF Cons(1)] by auto
  next
    case 2
    have "x \<in> ran (id_map s) \<or> justifies env e (request_relay_msg env) x" if known: "x \<in> ran (id_map s1)"
    proof -
      obtain i where "id_map s1 i = Some x" using known by (auto simp: ran_def)
      then have "map_of (rev (registration env e)) i = Some x \<or> id_map s i = Some x"
        using address_book.step_view [OF Cons(1)] by (auto simp: map_add_def split: option.splits)
      then show ?thesis
        using registration_justifies [of i x env e] by (auto dest: map_of_SomeD intro: ranI)
    qed
    then show ?thesis using Cons.IH [OF 2] by auto
  qed
qed simp

text \<open>C12: The server sends datagrams only to addresses that asked for them: every datagram of a run
  answers a registration or a key received from the very address it goes to (with the response of
  that kind), or tells a peer that registered from that address to use the relay. A stranger cannot
  be made a target through the TCP port.\<close>

theorem datagrams_justified:
  assumes "run_machine (server_step env) server_init es = Some (s', out)" "UdpSend msg x \<in> set out"
  shows "\<exists>e \<in> set es. justifies env e msg x"
  using run_justified [OF assms] by (simp add: server_init_def)

theorem datagrams_justified_witness: "\<exists>e \<in> set demo_session. justifies demo_env e (request_relay_msg demo_env) (demo_addr 1)"
  by (rule datagrams_justified [OF demo_session_run]) simp

section \<open>Serving datagrams\<close>

text \<open>The phases in which the UDP socket is polled.\<close>

fun udp_enabled :: "'c phase \<Rightarrow> bool" where
  "udp_enabled (Serving u d) = (\<not> u)"
| "udp_enabled (Relaying u _ _ _ _) = (\<not> u)"
| "udp_enabled _ = False"

text \<open>The next round of the loop: the disabled branches are polled again.\<close>

fun rearmed :: "'c phase \<Rightarrow> 'c phase" where
  "rearmed (Serving u d) = Serving False False"
| "rearmed (Relaying u req rsp a b) = Relaying False req rsp a b"
| "rearmed p = p"

text \<open>Registration is served the same way whether or not a session is being relayed: in every phase
  that polls the UDP socket, a registration is recorded and answered to its sender, exactly once, a
  key is acknowledged to its sender and recorded nowhere, and any other datagram has no effect.\<close>

theorem udp_service:
  assumes "udp_enabled (phase s)"
  shows "server_step env s (UdpNext (Some (Inr (bs, addr)))) =
    Some (case parse env bs of
        Inl _ \<Rightarrow> (s\<lparr>phase := rearmed (phase s)\<rparr>, [])
      | Inr msg \<Rightarrow>
          (case msg_union msg of
             Some (RegisterPeer rp) \<Rightarrow>
               (s\<lparr>id_map := (id_map s)(rp_id rp \<mapsto> addr), phase := rearmed (phase s)\<rparr>,
                [UdpSend \<lparr>msg_union = Some (RegisterPeerResponse register_peer_response_new)\<rparr> addr])
           | Some (RegisterPk _) \<Rightarrow>
               (s\<lparr>phase := rearmed (phase s)\<rparr>,
                [UdpSend \<lparr>msg_union = Some (RegisterPkResponse \<lparr>rk_result = Known OK\<rparr>)\<rparr> addr])
           | _ \<Rightarrow> (s\<lparr>phase := rearmed (phase s)\<rparr>, [])))"
proof -
  have same: "s\<lparr>id_map := id_map s, phase := p\<rparr> = s\<lparr>phase := p\<rparr>" for p by (cases s) simp
  show ?thesis
    using assms
    by (cases "phase s")
      (simp_all add: server_step.simps handle_udp_def same split: sum.split option.split rendezvous_union.split)
qed

theorem udp_service_witness:
  "server_step demo_env (server_init :: nat server) (UdpNext (Some (Inr ([1], demo_addr 7)))) =
     Some (server_init\<lparr>id_map := [''a'' \<mapsto> demo_addr 7]\<rparr>,
       [UdpSend \<lparr>msg_union = Some (RegisterPeerResponse register_peer_response_new)\<rparr> (demo_addr 7)])"
  using udp_service [of "server_init :: nat server" demo_env "[1]" "demo_addr 7"]
  by (simp add: server_init_def demo_env_def)

section \<open>Relaying\<close>

text \<open>What a relay receives from each end, and what a stream is sent.\<close>

fun peer_payload :: "'c event \<Rightarrow> bytes list" where
  "peer_payload (PeerNext (Some (Inr bs))) = [bs]"
| "peer_payload _ = []"

fun stream_payload :: "'c event \<Rightarrow> bytes list" where
  "stream_payload (StreamNext (Some (Inr bs))) = [bs]"
| "stream_payload _ = []"

fun sent_to :: "'c \<Rightarrow> 'c action \<Rightarrow> bytes list" where
  "sent_to c (TcpSendBytes c' bs) = (if c' = c then [bs] else [])"
| "sent_to c _ = []"

text \<open>The events of a relay that goes on: payloads, and anything on the UDP socket.\<close>

fun relay_goes_on :: "'c event \<Rightarrow> bool" where
  "relay_goes_on (PeerNext (Some (Inr _))) = True"
| "relay_goes_on (StreamNext (Some (Inr _))) = True"
| "relay_goes_on (UdpNext _) = True"
| "relay_goes_on _ = False"

lemma relay_not_item: "\<forall>x. res \<noteq> Some (Inr x) \<Longrightarrow> \<not> relay_goes_on (PeerNext res) \<and> \<not> relay_goes_on (StreamNext res)"
  by (cases res; simp; case_tac a) auto

lemma udp_not_sent_to: "handle_udp env bs addr m = (m', out) \<Longrightarrow> x \<in> set out \<Longrightarrow> sent_to c x = []"
  by (erule handle_udp_cases) auto

lemma relay_step:
  assumes "server_step env s e = Some (s', out)" "phase s = Relaying u req rsp a b" "relay_goes_on e" "a \<noteq> b"
  shows "(\<exists>u'. phase s' = Relaying u' req rsp a b) \<and>
    concat (map (sent_to a) out) = peer_payload e \<and> concat (map (sent_to b) out) = stream_payload e"
  using assms by (elim server_stepE) (auto dest: relay_not_item udp_not_sent_to)

lemma relay_run:
  assumes "run_machine (server_step env) s es = Some (s', out)" "phase s = Relaying u req rsp a b" "a \<noteq> b"
    "\<forall>e \<in> set es. relay_goes_on e"
  shows "(\<exists>u'. phase s' = Relaying u' req rsp a b) \<and>
    concat (map (sent_to a) out) = concat (map peer_payload es) \<and>
    concat (map (sent_to b) out) = concat (map stream_payload es)"
  using assms
proof (induction arbitrary: u rule: run_machine_induct)
  case (Cons s e s1 out1 es s' out)
  show ?case using relay_step [OF Cons(1) Cons.prems(1)] Cons.IH Cons.prems by force
qed simp

text \<open>C8: A relay is a transparent pipe: as long as both ends keep sending, the server stays in the same
  relay, everything the peer sent has been sent to the stream, everything the stream sent has been sent to
  the peer, unchanged, in order and with nothing else in between, however the two directions and the
  UDP socket interleave; and when either end stops, all four streams of the session are closed
  and the server serves again.\<close>

theorem relay_transparent:
  assumes "run_machine (server_step env) s es = Some (s', out)" "phase s = Relaying u req rsp a b" "a \<noteq> b"
    "\<forall>e \<in> set es. relay_goes_on e"
  shows "(\<exists>u'. phase s' = Relaying u' req rsp a b) \<and>
    concat (map (sent_to a) out) = concat (map peer_payload es) \<and>
    concat (map (sent_to b) out) = concat (map stream_payload es) \<and>
    (\<forall>stop \<in> {PeerNext None, StreamNext None, PeerNext (Some (Inl err)), StreamNext (Some (Inl err))}.
       server_step env s' stop =
         Some (s'\<lparr>phase := Serving False False\<rparr>, [Close a, Close b, Close req, Close rsp]))"
  using relay_run [OF assms] by (auto simp: server_step.simps)

theorem relay_transparent_witness:
  "\<exists>s' out. run_machine (server_step demo_env) \<lparr>id_map = Map.empty, saved_stream = None, phase = Relaying False 1 2 3 (4 :: nat)\<rparr>
      [PeerNext (Some (Inr [7])), UdpNext None, StreamNext (Some (Inr [8])), PeerNext (Some (Inr [9]))] = Some (s', out) \<and>
    concat (map (sent_to 3) out) = [[7], [9]] \<and> concat (map (sent_to 4) out) = [[8]]"
proof -
  obtain s' out where run: "run_machine (server_step demo_env) \<lparr>id_map = Map.empty, saved_stream = None, phase = Relaying False 1 2 3 (4 :: nat)\<rparr>
      [PeerNext (Some (Inr [7])), UdpNext None, StreamNext (Some (Inr [8])), PeerNext (Some (Inr [9]))] = Some (s', out)"
    by (simp add: run_machine.simps(2) server_step.simps)
  have "concat (map (sent_to 3) out) = [[7], [9]] \<and> concat (map (sent_to 4) out) = [[8]]"
    using relay_transparent [OF run, of False 1 2 3 4] by simp
  then show ?thesis using run by blast
qed

section \<open>Connections\<close>

text \<open>The streams a state keeps alive, those an event brings in and those an action gives up.\<close>

fun phase_conns :: "'c phase \<Rightarrow> 'c multiset" where
  "phase_conns (Serving _ _) = {#}"
| "phase_conns (FirstMessage c _) = {#c#}"
| "phase_conns (AcceptFirst req rsp) = {#req, rsp#}"
| "phase_conns (HelloFirst req rsp a) = {#req, rsp, a#}"
| "phase_conns (AcceptSecond req rsp a) = {#req, rsp, a#}"
| "phase_conns (HelloSecond req rsp a b) = {#req, rsp, a, b#}"
| "phase_conns (Relaying _ req rsp a b) = {#req, rsp, a, b#}"
| "phase_conns Crashed = {#}"

definition conns :: "'c server \<Rightarrow> 'c multiset" where
  "conns s = phase_conns (phase s) + mset_set (set_option (saved_stream s))"

fun conn_in :: "'c event \<Rightarrow> 'c multiset" where
  "conn_in (Accepted (Inr (c, _))) = {#c#}"
| "conn_in (RelayAccepted (Inr (c, _))) = {#c#}"
| "conn_in _ = {#}"

fun conn_out :: "'c action \<Rightarrow> 'c multiset" where
  "conn_out (Close c) = {#c#}"
| "conn_out _ = {#}"

lemma udp_no_conn_out: "handle_udp env bs addr m = (m', out) \<Longrightarrow> sum_list (map conn_out out) = {#}"
  by (erule handle_udp_cases) simp_all

interpretation connections: machine_ledger "server_step env" conns conn_in conn_out
proof
  fix s s' :: "'c server" and e out
  assume "server_step env s e = Some (s', out)"
  then show "conns s' + sum_list (map conn_out out) = conns s + conn_in e"
    by (rule server_stepE)
      (auto simp: conns_def udp_no_conn_out elim!: handle_first_cases split: option.splits)
qed

text \<open>While a session is set up or relayed, no requester is saved.\<close>

fun in_session :: "'c phase \<Rightarrow> bool" where
  "in_session (Serving _ _) = False"
| "in_session (FirstMessage _ _) = False"
| "in_session Crashed = False"
| "in_session _ = True"

interpretation one_requester: machine_invariant "server_step env" "\<lambda>s. in_session (phase s) \<longrightarrow> saved_stream s = None" "\<lambda>_. True"
proof
  fix s s' :: "'c server" and e out
  assume "in_session (phase s) \<longrightarrow> saved_stream s = None" "server_step env s e = Some (s', out)"
  then show "in_session (phase s') \<longrightarrow> saved_stream s' = None"
    by (elim server_stepE) (auto elim!: handle_first_cases)
qed

text \<open>C11: No connection is lost or closed twice: after any run from the start, the connections accepted
  on the two listeners are exactly those closed so far together with those still held, and the
  server never holds more than four: at most one saved requester while it serves, and the four
  streams of one session while it relays.\<close>

theorem connections_conserved:
  assumes "run_machine (server_step env) server_init es = Some (s', out)"
  shows "sum_list (map conn_in es) = sum_list (map conn_out out) + conns s' \<and> size (conns s') \<le> 4"
proof -
  have none: "conns (server_init :: 'a server) = {#}" by (simp add: conns_def server_init_def)
  have ledger: "sum_list (map conn_in es) = sum_list (map conn_out out) + conns s'"
    using connections.run_ledger [OF assms] none by (simp add: add.commute)
  have "in_session (phase s') \<longrightarrow> saved_stream s' = None"
    using one_requester.run_preserves [OF assms] by (simp add: server_init_def)
  then have "size (conns s') \<le> 4"
    by (cases "phase s'"; cases "saved_stream s'") (simp_all add: conns_def)
  then show ?thesis using ledger by simp
qed

theorem connections_conserved_witness:
  "sum_list (map conn_in (demo_session @ [PeerNext None])) = {#1, 2, 3, 4#}"
proof -
  have run: "run_machine (server_step demo_env) server_init (demo_session @ [PeerNext None]) =
      Some (\<lparr>id_map = [''a'' \<mapsto> demo_addr 1], saved_stream = None, phase = Serving False False\<rparr>,
        [UdpSend \<lparr>msg_union = Some (RegisterPeerResponse register_peer_response_new)\<rparr> (demo_addr 1),
         UdpSend (request_relay_msg demo_env) (demo_addr 1), TcpSend 1 (relay_response_msg demo_env), SetRaw 4, SetRaw 3,
         Close 3, Close 4, Close 1, Close 2])"
    by (simp add: run_machine_append demo_session_run run_machine.simps(2) server_step.simps)
  show ?thesis using connections_conserved [OF run] by (simp add: conns_def add_mset_commute)
qed

section \<open>Failure and progress\<close>

text \<open>The failures of the main loop's two sources.\<close>

fun udp_failure :: "'c event \<Rightarrow> bool" where
  "udp_failure (UdpNext (Some (Inr _))) = False"
| "udp_failure (UdpNext _) = True"
| "udp_failure _ = False"

fun accept_failure :: "'c event \<Rightarrow> bool" where
  "accept_failure (Accepted (Inl _)) = True"
| "accept_failure _ = False"

lemma not_item_udp_failure: "\<not> udp_failure (UdpNext res) \<Longrightarrow> \<exists>bs addr. res = Some (Inr (bs, addr))"
  by (cases res; simp; case_tac a) auto

interpretation udp_works: machine_invariant "server_step env"
  "\<lambda>s. phase s \<noteq> Crashed \<and> (\<forall>d. phase s \<noteq> Serving True d)" "\<lambda>e. \<not> udp_failure e"
proof
  fix s s' :: "'c server" and e out
  assume "phase s \<noteq> Crashed \<and> (\<forall>d. phase s \<noteq> Serving True d)" "\<not> udp_failure e"
    "server_step env s e = Some (s', out)"
  then show "phase s' \<noteq> Crashed \<and> (\<forall>d. phase s' \<noteq> Serving True d)"
    by (elim server_stepE) (auto elim!: handle_first_cases dest: not_item_udp_failure)
qed

interpretation accept_works: machine_invariant "server_step env"
  "\<lambda>s. phase s \<noteq> Crashed \<and> (\<forall>u. phase s \<noteq> Serving u True)" "\<lambda>e. \<not> accept_failure e"
proof
  fix s s' :: "'c server" and e out
  assume "phase s \<noteq> Crashed \<and> (\<forall>u. phase s \<noteq> Serving u True)" "\<not> accept_failure e"
    "server_step env s e = Some (s', out)"
  then show "phase s' \<noteq> Crashed \<and> (\<forall>u. phase s' \<noteq> Serving u True)"
    by (elim server_stepE) (auto elim!: handle_first_cases)
qed



lemma reachable_not_both:
  "reachable env s \<Longrightarrow> phase s \<noteq> Serving True True"
  by (induction rule: reachable.induct)
    (auto simp: server_init_def split: if_splits elim!: server_transE handle_first_cases)



section \<open>Sessions\<close>

text \<open>C13: The demonstration flow works from every idle state: once a peer has registered an id, a
  request for that id is passed to the address it registered from and its stream is kept (a
  requester kept from before is closed), the peer's relay response is answered by telling that
  requester the relay, and the next two relay connections, whether or not they greet in time, are put
  in raw mode and relayed to each other, with both request streams kept open.\<close>

theorem session_established:
  assumes "phase s = Serving False False"
    and "parse env reg = Inr \<lparr>msg_union = Some (RegisterPeer rp)\<rparr>"
    and "parse env req = Inr \<lparr>msg_union = Some (PunchHoleRequest ph)\<rparr>" "ph_id ph = rp_id rp"
    and "parse env resp = Inr \<lparr>msg_union = Some (RelayResponse rr)\<rparr>"
  shows "run_machine (server_step env) s
      [UdpNext (Some (Inr (reg, addr))), Accepted (Inr (c, x)), FirstNext (Some (Inr req)),
       Accepted (Inr (d, y)), FirstNext (Some (Inr resp)),
       RelayAccepted (Inr (a, z)), FirstNext hello_a, RelayAccepted (Inr (b, w)), FirstNext hello_b] =
    Some (\<lparr>id_map = (id_map s)(rp_id rp \<mapsto> addr), saved_stream = None, phase = Relaying False c d a b\<rparr>,
      [UdpSend \<lparr>msg_union = Some (RegisterPeerResponse register_peer_response_new)\<rparr> addr,
       UdpSend (request_relay_msg env) addr] @
      (case saved_stream s of Some old \<Rightarrow> [Close old] | None \<Rightarrow> []) @
      [TcpSend c (relay_response_msg env), SetRaw b, SetRaw a])"
  using assms
  by (simp add: run_machine.simps(2) server_step.simps handle_udp_def handle_first_def split: option.split)

theorem session_established_witness:
  "\<exists>s' out. run_machine (server_step demo_env) (server_init\<lparr>saved_stream := Some 0\<rparr> :: nat server)
      [UdpNext (Some (Inr ([1], demo_addr 1))), Accepted (Inr (1, demo_addr 2)), FirstNext (Some (Inr [2])),
       Accepted (Inr (2, demo_addr 1)), FirstNext (Some (Inr [3])),
       RelayAccepted (Inr (3, demo_addr 1)), FirstNext None, RelayAccepted (Inr (4, demo_addr 2)), FirstNext None] =
    Some (s', out) \<and> Close 0 \<in> set out \<and> phase s' = Relaying False 1 2 3 4"
  using session_established [of "server_init\<lparr>saved_stream := Some 0\<rparr> :: nat server" demo_env "[1]" "\<lparr>rp_id = ''a'', rp_serial = 0\<rparr>"
      "[2]" "\<lparr>ph_id = ''a'', ph_nat_type = Known UNKNOWN_NAT\<rparr>" "[3]" relay_response_default]
  by (simp add: server_init_def demo_env_def)

text \<open>The streams whose first message was a request to be connected to a peer.\<close>

definition requested :: "server_env \<Rightarrow> (io_error + bytes) option \<Rightarrow> bool" where
  "requested env res = (\<exists>bs ph. res = Some (Inr bs) \<and> parse env bs = Inr \<lparr>msg_union = Some (PunchHoleRequest ph)\<rparr>)"

fun told :: "'c action \<Rightarrow> 'c multiset" where
  "told (TcpSend c _) = {#c#}"
| "told _ = {#}"

lemma udp_told: "handle_udp env bs addr m = (m', out) \<Longrightarrow> sum_list (map told out) = {#}"
  by (erule handle_udp_cases) simp_all



end
