(* ===== verification/Server_Spec.thy ===== *)
theory Server_Spec imports Server_Props begin

text \<open>
  What the server of \<open>src/main.rs\<close> is for, without sockets, parsing, pending reads and the lifetime of
  streams: a broker that keeps an address book, remembers one requester, and bridges two
  connections at a time. The server refines it step by step.
\<close>

section \<open>The broker\<close>

datatype 'c stage = Idle | Answered | Bridged 'c 'c

record 'c broker =
  book :: "string \<rightharpoonup> socket_addr"
  waiting :: "'c option"
  stage :: "'c stage"

datatype 'c request =
    Register string socket_addr
  | Confirm socket_addr \<comment> \<open>a key is confirmed\<close>
  | Ask 'c string \<comment> \<open>to be connected to the owner of an id\<close>
  | Answer \<comment> \<open>of that owner\<close>
  | Bridge 'c 'c
  | Forward bool bytes \<comment> \<open>from the second end, or from the first\<close>
  | Hangup

datatype 'c reaction =
    Reply rendezvous_message socket_addr
  | Tell 'c rendezvous_message
  | Carry 'c bytes

fun broker_step :: "server_env \<Rightarrow> 'c broker \<Rightarrow> 'c request \<Rightarrow> ('c broker \<times> 'c reaction list) option" where
  "broker_step env b (Register i x) =
     Some (b\<lparr>book := (book b)(i \<mapsto> x)\<rparr>, [Reply \<lparr>msg_union = Some (RegisterPeerResponse register_peer_response_new)\<rparr> x])"
| "broker_step env b (Confirm x) =
     Some (b, [Reply \<lparr>msg_union = Some (RegisterPkResponse \<lparr>rk_result = Known OK\<rparr>)\<rparr> x])"
| "broker_step env b (Ask c i) =
     (if stage b \<noteq> Idle then None
      else case book b i of
        None \<Rightarrow> Some (b, [])
      | Some x \<Rightarrow> Some (b\<lparr>waiting := Some c\<rparr>, [Reply (request_relay_msg env) x]))"
| "broker_step env b Answer =
     (if stage b \<noteq> Idle then None
      else case waiting b of
        None \<Rightarrow> Some (b, [])
      | Some c \<Rightarrow> Some (b\<lparr>waiting := None, stage := Answered\<rparr>, [Tell c (relay_response_msg env)]))"
| "broker_step env b (Bridge x y) =
     (if stage b = Answered then Some (b\<lparr>stage := Bridged x y\<rparr>, []) else None)"
| "broker_step env b (Forward from_second bs) =
     (case stage b of Bridged x y \<Rightarrow> Some (b, [Carry (if from_second then x else y) bs]) | _ \<Rightarrow> None)"
| "broker_step env b Hangup = (if stage b = Idle then None else Some (b\<lparr>stage := Idle\<rparr>, []))"

definition broker_init :: "'c broker" where
  "broker_init = \<lparr>book = Map.empty, waiting = None, stage = Idle\<rparr>"

section \<open>The server as a broker\<close>

fun stage_of :: "'c phase \<Rightarrow> 'c stage" where
  "stage_of (Serving u d) = Idle"
| "stage_of (FirstMessage c x) = Idle"
| "stage_of (AcceptFirst req rsp) = Answered"
| "stage_of (HelloFirst req rsp a) = Answered"
| "stage_of (AcceptSecond req rsp a) = Answered"
| "stage_of (HelloSecond req rsp a b) = Answered"
| "stage_of (Relaying u req rsp a b) = Bridged a b"
| "stage_of Crashed = Idle"

definition broker_of :: "'c server \<Rightarrow> 'c broker" where
  "broker_of s = \<lparr>book = id_map s, waiting = saved_stream s, stage = stage_of (phase s)\<rparr>"

fun seen :: "'c action \<Rightarrow> 'c reaction list" where
  "seen (UdpSend msg x) = [Reply msg x]"
| "seen (TcpSend c msg) = [Tell c msg]"
| "seen (TcpSendBytes c bs) = [Carry c bs]"
| "seen _ = []"

text \<open>What a message asks for: over UDP from an address, and first on a stream.\<close>

definition parsed :: "server_env \<Rightarrow> bytes \<Rightarrow> rendezvous_union option" where
  "parsed env bs = (case parse env bs of Inr msg \<Rightarrow> msg_union msg | Inl e \<Rightarrow> None)"

definition udp_request :: "server_env \<Rightarrow> bytes \<Rightarrow> socket_addr \<Rightarrow> 'c request list" where
  "udp_request env bs x =
     (case parsed env bs of
        Some (RegisterPeer rp) \<Rightarrow> [Register (rp_id rp) x]
      | Some (RegisterPk _) \<Rightarrow> [Confirm x]
      | _ \<Rightarrow> [])"

definition first_request :: "server_env \<Rightarrow> 'c \<Rightarrow> (io_error + bytes) option \<Rightarrow> 'c request list" where
  "first_request env c res =
     (case res of
        Some (Inr bs) \<Rightarrow>
          (case parsed env bs of
             Some (PunchHoleRequest ph) \<Rightarrow> [Ask c (ph_id ph)]
           | Some (RelayResponse _) \<Rightarrow> [Answer]
           | _ \<Rightarrow> [])
      | _ \<Rightarrow> [])"

definition relay_request :: "bool \<Rightarrow> (io_error + bytes) option \<Rightarrow> 'c request list" where
  "relay_request from_second res = (case res of Some (Inr bs) \<Rightarrow> [Forward from_second bs] | _ \<Rightarrow> [Hangup])"

fun requests :: "server_env \<Rightarrow> 'c server \<Rightarrow> 'c event \<Rightarrow> 'c request list" where
  "requests env s (UdpNext (Some (Inr (bs, x)))) = udp_request env bs x"
| "requests env s (UdpNext _) = []"
| "requests env s (FirstNext res) =
     (case phase s of
        FirstMessage c x \<Rightarrow> first_request env c res
      | HelloSecond req rsp a b \<Rightarrow> [Bridge a b]
      | _ \<Rightarrow> [])"
| "requests env s (Accepted res) = []"
| "requests env s (RelayAccepted (Inl e)) = [Hangup]"
| "requests env s (RelayAccepted (Inr c)) = []"
| "requests env s (PeerNext res) = relay_request True res"
| "requests env s (StreamNext res) = relay_request False res"

lemma requests_no_datagram: "\<forall>x. res \<noteq> Some (Inr x) \<Longrightarrow> requests env s (UdpNext res :: 'c event) = []" for s :: "'c server"
  by (cases "(env, s, UdpNext res :: 'c event)" rule: requests.cases) auto

lemma relay_request_item [simp]: "relay_request k (Some (Inr bs)) = [Forward k bs]"
  by (simp add: relay_request_def)

lemma relay_request_end: "\<forall>x. res \<noteq> Some (Inr x) \<Longrightarrow> relay_request k res = [Hangup]"
  by (auto simp: relay_request_def split: option.split sum.split)

section \<open>Refinement\<close>

lemma handle_udp_parsed:
  "handle_udp env bs x m =
     (case parsed env bs of
        Some (RegisterPeer rp) \<Rightarrow>
          (m(rp_id rp \<mapsto> x), [UdpSend \<lparr>msg_union = Some (RegisterPeerResponse register_peer_response_new)\<rparr> x])
      | Some (RegisterPk _) \<Rightarrow> (m, [UdpSend \<lparr>msg_union = Some (RegisterPkResponse \<lparr>rk_result = Known OK\<rparr>)\<rparr> x])
      | _ \<Rightarrow> (m, []))"
  by (cases "parse env bs") (simp_all add: handle_udp_def parsed_def)

lemma handle_first_parsed:
  "handle_first env s c res =
     (case res of
        Some (Inr bs) \<Rightarrow>
          (case parsed env bs of
             Some (PunchHoleRequest ph) \<Rightarrow>
               (case id_map s (ph_id ph) of
                  Some addr \<Rightarrow>
                    (s\<lparr>saved_stream := Some c, phase := Serving False False\<rparr>,
                     UdpSend (request_relay_msg env) addr #
                     (case saved_stream s of Some old \<Rightarrow> [Close old] | None \<Rightarrow> []))
                | None \<Rightarrow> (s\<lparr>phase := Serving False False\<rparr>, [Close c]))
           | Some (RelayResponse _) \<Rightarrow>
               (case saved_stream s of
                  Some requester \<Rightarrow>
                    (s\<lparr>saved_stream := None, phase := AcceptFirst requester c\<rparr>,
                     [TcpSend requester (relay_response_msg env)])
                | None \<Rightarrow> (s\<lparr>phase := Serving False False\<rparr>, [Close c]))
           | _ \<Rightarrow> (s\<lparr>phase := Serving False False\<rparr>, [Close c]))
      | _ \<Rightarrow> (s\<lparr>phase := Serving False False\<rparr>, [Close c]))"
  by (auto simp: handle_first_def parsed_def Let_def split: option.split sum.split)

lemma udp_refines:
  assumes "handle_udp env bs x (id_map s) = (m, out)"
  shows "run_machine (broker_step env) (broker_of s) (udp_request env bs x) = Some ((broker_of s)\<lparr>book := m\<rparr>, concat (map seen out))"
proof (cases "parsed env bs")
  case (Some v)
  then show ?thesis using assms
    by (cases v) (auto simp: handle_udp_parsed udp_request_def broker_of_def run_machine.simps(2))
qed (use assms in \<open>auto simp: handle_udp_parsed udp_request_def broker_of_def\<close>)

lemma first_refines_message:
  assumes "handle_first env s c (Some (Inr bs)) = (s', out)" "phase s = FirstMessage c x"
  shows "run_machine (broker_step env) (broker_of s) (first_request env c (Some (Inr bs))) = Some (broker_of s', concat (map seen out))"
proof (cases "parsed env bs")
  case (Some v)
  then show ?thesis using assms
    by (cases v; cases "saved_stream s")
      (auto simp: handle_first_parsed first_request_def broker_of_def run_machine.simps(2) split: option.splits)
qed (use assms in \<open>auto simp: handle_first_parsed first_request_def broker_of_def\<close>)

lemma first_refines:
  assumes "handle_first env s c res = (s', out)" "phase s = FirstMessage c x"
  shows "run_machine (broker_step env) (broker_of s) (first_request env c res) = Some (broker_of s', concat (map seen out))"
proof (cases "\<exists>bs. res = Some (Inr bs)")
  case False
  then have "s' = s\<lparr>phase := Serving False False\<rparr>" "out = [Close c]" "first_request env c res = []"
    using assms(1) by (auto simp: handle_first_parsed first_request_def split: option.splits sum.splits)
  then show ?thesis using assms(2) by (simp add: broker_of_def)
qed (use assms first_refines_message in auto)

interpretation brokered: machine_refinement "server_step env" "broker_step env" broker_of "requests env" seen
proof
  fix s s' :: "'c server" and e out
  assume "server_step env s e = Some (s', out)"
  then show "run_machine (broker_step env) (broker_of s) (requests env s e) = Some (broker_of s', concat (map seen out))"
    by (rule server_stepE)
      (auto simp: broker_of_def relay_request_end requests_no_datagram run_machine.simps(2)
        dest!: udp_refines first_refines)
qed

text \<open>C4: The server is a broker: every run from the start, with its sockets, pending reads, failures and streams
  opened and closed on the way, is a run of the broker on the requests the clients made, with the same
  address book, the same waiting requester, the same bridged connections, and exactly the same messages
  to the clients in the same order.\<close>

theorem broker_refined:
  assumes "run_machine (server_step env) server_init es = Some (s', out)"
  shows "run_machine (broker_step env) broker_init (trace_of (server_step env) (requests env) server_init es) =
    Some (broker_of s', concat (map seen out))"
proof -
  have "broker_of server_init = broker_init" by (simp add: broker_of_def server_init_def broker_init_def)
  then show ?thesis using brokered.run_refines [OF assms] by metis
qed

theorem broker_refined_witness:
  "run_machine (broker_step demo_env) broker_init (trace_of (server_step demo_env) (requests demo_env) server_init demo_session) =
     Some (\<lparr>book = [''a'' \<mapsto> demo_addr 1], waiting = None, stage = Bridged 3 4\<rparr>,
       [Reply \<lparr>msg_union = Some (RegisterPeerResponse register_peer_response_new)\<rparr> (demo_addr 1),
        Reply (request_relay_msg demo_env) (demo_addr 1), Tell 1 (relay_response_msg demo_env)])"
  using broker_refined [OF demo_session_run] by (simp add: broker_of_def)

end
