(* ===== verification/File_Proto.thy ===== *)
theory File_Proto imports Rust_Prelude begin

text \<open>
  \<open>libs/hbb_common/protos/message.proto\<close>, the part about files: directories, blocks, and what one
  client asks of the other. An enum field is \<open>Inl\<close> of the raw number when the schema does not know it.
\<close>

datatype file_type = FtDir | FtDirLink | FtDirDrive | FtFile | FtFileLink

record file_entry =
  entry_type :: "i32 + file_type"
  name :: string
  is_hidden :: bool
  fe_size :: u64
  modified_time :: u64

record file_directory =
  fd_id :: i32
  fd_path :: string
  entries :: "file_entry list"

record file_transfer_block =
  blk_id :: i32
  blk_file_num :: i32
  blk_data :: bytes
  compressed :: bool

record file_transfer_error =
  err_id :: i32
  err_text :: string
  err_file_num :: i32

record file_transfer_done =
  done_id :: i32
  done_file_num :: i32

record file_transfer_send_request =
  snd_id :: i32
  snd_path :: string
  snd_include_hidden :: bool

record file_transfer_receive_request =
  rcv_id :: i32
  rcv_path :: string
  rcv_files :: "file_entry list"

datatype file_response =
    RespDir file_directory
  | RespBlock file_transfer_block
  | RespError file_transfer_error
  | RespDone file_transfer_done

record read_dir_request =
  rdd_path :: string
  rdd_include_hidden :: bool

record read_all_files =
  raf_id :: i32
  raf_path :: string
  raf_include_hidden :: bool

record file_transfer_cancel =
  cnl_id :: i32

record file_remove_dir =
  rmd_id :: i32
  rmd_path :: string
  rmd_recursive :: bool

record file_remove_file =
  rmf_id :: i32
  rmf_path :: string
  rmf_file_num :: i32

record file_dir_create =
  mkd_id :: i32
  mkd_path :: string

text \<open>What one client asks of the other; the library builds \<open>ActSend\<close> and \<open>ActReceive\<close>.\<close>

datatype file_action =
    ActReadDir read_dir_request
  | ActSend file_transfer_send_request
  | ActReceive file_transfer_receive_request
  | ActCreate file_dir_create
  | ActRemoveDir file_remove_dir
  | ActRemoveFile file_remove_file
  | ActAllFiles read_all_files
  | ActCancel file_transfer_cancel

datatype message =
    FileAction file_action
  | FileResponse file_response

text \<open>The protobuf default of a message whose fields are numbers, strings and repeated fields.\<close>

definition file_directory_default :: file_directory where
  "file_directory_default = \<lparr>fd_id = 0, fd_path = [], entries = []\<rparr>"

section \<open>Constructors of messages\<close>

definition new_error :: "i32 \<Rightarrow> string \<Rightarrow> i32 \<Rightarrow> message" where
  "new_error job_id err file_num =
     FileResponse (RespError \<lparr>err_id = job_id, err_text = err, err_file_num = file_num\<rparr>)"

definition new_dir :: "i32 \<Rightarrow> file_entry list \<Rightarrow> message" where
  "new_dir job_id files = FileResponse (RespDir (file_directory_default\<lparr>fd_id := job_id, entries := files\<rparr>))"

definition new_block :: "file_transfer_block \<Rightarrow> message" where
  "new_block block = FileResponse (RespBlock block)"

definition new_receive :: "i32 \<Rightarrow> string \<Rightarrow> file_entry list \<Rightarrow> message" where
  "new_receive job_id path files =
     FileAction (ActReceive \<lparr>rcv_id = job_id, rcv_path = path, rcv_files = files\<rparr>)"

definition new_send :: "i32 \<Rightarrow> string \<Rightarrow> bool \<Rightarrow> message" where
  "new_send job_id path include_hidden =
     FileAction (ActSend \<lparr>snd_id = job_id, snd_path = path, snd_include_hidden = include_hidden\<rparr>)"

definition new_done :: "i32 \<Rightarrow> i32 \<Rightarrow> message" where
  "new_done job_id file_num = FileResponse (RespDone \<lparr>done_id = job_id, done_file_num = file_num\<rparr>)"

end
