(* ===== verification/Paths.thy ===== *)
theory Paths imports Rust_Prelude begin

text \<open>
  \<open>std::path\<close> on Unix, as far as the library uses it. A \<open>PathBuf\<close> is the string of its bytes. A name the
  operating system gives may not be UTF-8: then \<open>to_str\<close> is \<open>None\<close>.
\<close>

datatype os_name = Utf8 string | NotUtf8 bytes

fun os_to_str :: "os_name \<Rightarrow> string option" where
  "os_to_str (Utf8 s) = Some s"
| "os_to_str (NotUtf8 _) = None"

definition is_absolute :: "string \<Rightarrow> bool" where
  "is_absolute p \<longleftrightarrow> (case p of [] \<Rightarrow> False | c # _ \<Rightarrow> c = CHR ''/'')"

text \<open>\<open>Path::join\<close>: an absolute argument replaces the path, a separator is added unless there is one.\<close>

definition path_join :: "string \<Rightarrow> string \<Rightarrow> string" where
  "path_join base p =
     (if is_absolute p then p
      else if base \<noteq> [] \<and> last base \<noteq> CHR ''/'' then base @ ''/'' @ p
      else base @ p)"

text \<open>\<open>Path::components\<close>: empty components and \<open>.\<close> vanish, but for a leading \<open>.\<close>.\<close>

definition components :: "string \<Rightarrow> string list" where
  "components p =
     (let parts = split_on CHR ''/'' p
      in (if hd parts = ''.'' then [''.''] else []) @ filter (\<lambda>c. c \<noteq> [] \<and> c \<noteq> ''.'') parts)"

definition path_file_name :: "string \<Rightarrow> string option" where
  "path_file_name p =
     (case components p of
        [] \<Rightarrow> None
      | c # cs \<Rightarrow> (let l = last (c # cs) in if l = ''.'' \<or> l = ''..'' then None else Some l))"

definition get_file_name :: "string \<Rightarrow> string" where
  "get_file_name p = (case path_file_name p of Some f \<Rightarrow> f | None \<Rightarrow> [])"

text \<open>\<open>Path::parent\<close>: absoluteness and components of the parent; none for a root or the empty path.\<close>

definition path_parent :: "string \<Rightarrow> (bool \<times> string list) option" where
  "path_parent p = (case components p of [] \<Rightarrow> None | c # cs \<Rightarrow> Some (is_absolute p, butlast (c # cs)))"

text \<open>
  The place a path names when no symbolic link is on the way: components are followed from the
  root or the working directory, \<open>..\<close> goes up.
\<close>

definition walk :: "string list \<Rightarrow> string list \<Rightarrow> string list" where
  "walk start cs = foldl (\<lambda>at c. if c = ''.'' then at else if c = ''..'' then butlast at else at @ [c]) start cs"

definition resolve :: "string list \<Rightarrow> string \<Rightarrow> string list" where
  "resolve cwd p = walk (if is_absolute p then [] else cwd) (components p)"

text \<open>A plain name: one component, neither \<open>.\<close> nor \<open>..\<close>.\<close>

definition plain :: "string \<Rightarrow> bool" where
  "plain c \<longleftrightarrow> c \<noteq> [] \<and> c \<noteq> ''.'' \<and> c \<noteq> ''..'' \<and> CHR ''/'' \<notin> set c"

lemma split_on_join:
  "split_on c (s @ c # t) = split_on c s @ split_on c t"
proof (induction s)
  case (Cons x s)
  then show ?case by (cases "split_on c s") auto
qed simp

lemma hd_split_on_append: "hd (split_on c s @ ys) = hd (split_on c s)"
  by (cases "split_on c s") auto

lemma walk_append: "walk start (cs @ ds) = walk (walk start cs) ds"
  by (simp add: walk_def)

lemma walk_Nil [simp]: "walk start [] = start"
  by (simp add: walk_def)

lemma walk_plain [simp]: "plain c \<Longrightarrow> walk start [c] = start @ [c]"
  by (auto simp: walk_def plain_def)

lemma components_plain: "plain c \<Longrightarrow> components c = [c]"
  by (simp add: components_def plain_def split_on_none)

lemma is_absolute_plain: "plain c \<Longrightarrow> \<not> is_absolute c"
  by (cases c) (auto simp: plain_def is_absolute_def)

lemma walk_skip_dot: "walk start (filter (\<lambda>c. c \<noteq> [] \<and> c \<noteq> ''.'') cs) = walk start (filter (\<lambda>c. c \<noteq> []) cs)"
  by (induction cs arbitrary: start) (auto simp: walk_def)

lemma walk_dot [simp]: "walk start (''.'' # cs) = walk start cs"
  by (simp add: walk_def)

lemma walk_components: "walk start (components p) = walk start (filter (\<lambda>c. c \<noteq> []) (split_on CHR ''/'' p))"
  by (simp add: components_def Let_def walk_skip_dot)

lemma split_on_last_sep: "s \<noteq> [] \<Longrightarrow> last s = c \<Longrightarrow> split_on c s = split_on c (butlast s) @ [[]]"
  using split_on_join [of c "butlast s" "[]"] by (metis append_butlast_last_id split_on.simps(1))

text \<open>Joining a relative path resolves it from the place the base names.\<close>

lemma resolve_join:
  assumes "base \<noteq> []" "\<not> is_absolute p"
  shows "resolve cwd (path_join base p) = walk (resolve cwd base) (components p)"
proof -
  have abs: "is_absolute (base @ q) = is_absolute base" for q
    using assms(1) by (cases base) (simp_all add: is_absolute_def)
  show ?thesis
  proof (cases "last base = CHR ''/''")
    case True
    have "split_on CHR ''/'' (base @ p) = split_on CHR ''/'' (butlast base) @ split_on CHR ''/'' p"
      using split_on_join [of "CHR ''/''" "butlast base" p] assms(1) True
      by (metis append.assoc append_Cons append_Nil append_butlast_last_id)
    then show ?thesis using True assms
      by (simp add: path_join_def resolve_def abs walk_components walk_append split_on_last_sep)
  next
    case False
    then show ?thesis using assms split_on_join [of "CHR ''/''" base p]
      by (simp add: path_join_def resolve_def abs walk_components walk_append)
  qed
qed

lemma components_parts:
  assumes "split_on CHR ''/'' p = bs @ [c]" "plain c"
  shows "components p =
    ((if bs \<noteq> [] \<and> hd bs = ''.'' then [''.''] else []) @ filter (\<lambda>c. c \<noteq> [] \<and> c \<noteq> ''.'') bs) @ [c]"
  using assms by (cases bs) (auto simp: components_def plain_def)

lemma path_join_pre:
  assumes "\<not> is_absolute p"
  obtains pre where "path_join base p = pre @ p" "pre = [] \<or> (\<exists>d. pre = d @ ''/'')"
proof (cases "base = [] \<or> last base = CHR ''/''")
  case True
  then have "path_join base p = base @ p" using assms by (auto simp: path_join_def)
  moreover have "base = [] \<or> (\<exists>d. base = d @ ''/'')" using True by (metis append_butlast_last_id)
  ultimately show ?thesis using that by blast
next
  case False
  then have "path_join base p = (base @ ''/'') @ p" using assms by (simp add: path_join_def)
  then show ?thesis using that by blast
qed

lemma file_name_pre:
  assumes "pre = [] \<or> (\<exists>d. pre = d @ ''/'')" "plain c"
  shows "path_file_name (pre @ c) = Some c"
proof -
  obtain bs where "split_on CHR ''/'' (pre @ c) = bs @ [c]"
  proof (cases "pre = []")
    case True
    then show ?thesis using that [of "[]"] assms(2) by (simp add: split_on_none plain_def)
  next
    case False
    then obtain d where "pre = d @ ''/''" using assms(1) by blast
    then show ?thesis using that [of "split_on CHR ''/'' d"] assms(2) split_on_join [of "CHR ''/''" d c]
      by (simp add: split_on_none plain_def)
  qed
  from components_parts [OF this assms(2)] obtain cs where cs: "components (pre @ c) = cs @ [c]" by blast
  show ?thesis unfolding path_file_name_def cs using assms(2)
    by (cases cs) (simp_all add: plain_def Let_def)
qed

end
