(* ===== verification/Dir_Walk.thy ===== *)
theory Dir_Walk imports File_Proto Paths begin

text \<open>
  The functions of \<open>libs/hbb_common/src/fs.rs\<close> that walk directory trees: \<open>read_dir\<close>,
  \<open>read_dir_recursive\<close>, \<open>remove_all_empty_dir\<close> (the Unix build). A path argument is the \<open>node\<close> it leads
  to; the child that \<open>path.join(&entry.name)\<close> leads to is the item the entry was made from. Every call
  the code tolerates to fail can fail here: opening a directory, an entry, its metadata, its time, a
  removal. Nothing else changes the tree during a walk.
\<close>

section \<open>Directory trees\<close>

datatype node =
    RegularFile bytes "io_error + int" \<comment> \<open>content; modification time in seconds since the epoch\<close>
  | Special "io_error + int" \<comment> \<open>device, socket, pipe\<close>
  | Directory "io_error option" "io_error + int" "dir_item list" \<comment> \<open>the error when it cannot be read\<close>
  | LinkToDir "io_error + int"
  | LinkOther "io_error + int"
and dir_item =
    BadEntry io_error
  | NoMetadata os_name
  | Item os_name node

definition unix_secs :: "io_error + int \<Rightarrow> u64" where
  "unix_secs modified = (case modified of Inr t \<Rightarrow> if t < 0 then 0 else word_of_int t | Inl _ \<Rightarrow> 0)"

fun classify :: "node \<Rightarrow> (i32 + file_type) \<times> u64" where
  "classify (RegularFile bs _) = (Inr FtFile, word_of_nat (length bs))"
| "classify (Special _) = (Inr FtFile, 0)"
| "classify (Directory _ _ _) = (Inr FtDir, 0)"
| "classify (LinkToDir _) = (Inr FtDirLink, 0)"
| "classify (LinkOther _) = (Inr FtFileLink, 0)"

fun modified :: "node \<Rightarrow> io_error + int" where
  "modified (RegularFile _ t) = t"
| "modified (Special t) = t"
| "modified (Directory _ t _) = t"
| "modified (LinkToDir t) = t"
| "modified (LinkOther t) = t"

section \<open>Listing\<close>

text \<open>One round of the loop of \<open>read_dir\<close>: the entry pushed, if any.\<close>

fun dir_entry :: "bool \<Rightarrow> dir_item \<Rightarrow> file_entry option" where
  "dir_entry include_hidden (BadEntry _) = None"
| "dir_entry include_hidden (NoMetadata _) = None"
| "dir_entry include_hidden (Item nm n) =
     (let nam = (case os_to_str nm of Some s \<Rightarrow> s | None \<Rightarrow> []) in
      if nam = [] then None
      else
        let hidden = (hd nam = CHR ''.'') in
        if hidden \<and> \<not> include_hidden then None
        else Some \<lparr>entry_type = fst (classify n), name = nam, is_hidden = hidden,
               fe_size = snd (classify n), modified_time = unix_secs (modified n)\<rparr>)"

definition not_a_directory :: io_error where
  "not_a_directory = IoError (OsKind 20) ''Not a directory''"

definition read_dir :: "string \<Rightarrow> node \<Rightarrow> bool \<Rightarrow> anyhow_error + file_directory" where
  "read_dir path n include_hidden =
     (case n of
        Directory None _ items \<Rightarrow>
          Inr (file_directory_default\<lparr>fd_path := path,
                 entries := List.map_filter (dir_entry include_hidden) items\<rparr>)
      | Directory (Some e) _ _ \<Rightarrow> Inl (Io e)
      | _ \<Rightarrow> Inl (Io not_a_directory))"

text \<open>
  The files below a directory, named relative to it. An error below the top is swallowed with the
  subtree it concerns.
\<close>

fun read_dir_recursive :: "node \<Rightarrow> string \<Rightarrow> bool \<Rightarrow> anyhow_error + file_entry list"
  and read_items :: "dir_item list \<Rightarrow> string \<Rightarrow> bool \<Rightarrow> file_entry list" where
  "read_dir_recursive (Directory None _ items) prefix include_hidden = Inr (read_items items prefix include_hidden)"
| "read_dir_recursive (Directory (Some e) _ _) prefix include_hidden = Inl (Io e)"
| "read_dir_recursive (RegularFile bs t) prefix include_hidden =
     Inr [\<lparr>entry_type = Inr FtFile, name = [], is_hidden = False, fe_size = word_of_nat (length bs),
            modified_time = unix_secs t\<rparr>]"
| "read_dir_recursive _ prefix include_hidden = Inl (Bail ''Not exists'')"
| "read_items [] prefix include_hidden = []"
| "read_items (it # its) prefix include_hidden =
     (case dir_entry include_hidden it of
        None \<Rightarrow> []
      | Some e \<Rightarrow>
          (case (entry_type e, it) of
             (Inr FtFile, _) \<Rightarrow> [e\<lparr>name := path_join prefix (name e)\<rparr>]
           | (Inr FtDir, Item _ n) \<Rightarrow>
               (case read_dir_recursive n (path_join prefix (name e)) include_hidden of
                  Inr tmp \<Rightarrow> tmp
                | Inl _ \<Rightarrow> [])
           | _ \<Rightarrow> []))
     @ read_items its prefix include_hidden"

section \<open>Removing empty directories\<close>

text \<open>
  \<open>denied\<close> says which removals the operating system refuses; \<open>now\<close> is the time a directory gets
  when something is removed from it. The result is what remains of the node.
\<close>

fun remove_all_empty_dir :: "(string list \<Rightarrow> bool) \<Rightarrow> (io_error + int) \<Rightarrow> string list \<Rightarrow> node \<Rightarrow>
      (anyhow_error + unit) \<times> node option"
  and remove_items :: "(string list \<Rightarrow> bool) \<Rightarrow> (io_error + int) \<Rightarrow> string list \<Rightarrow> dir_item list \<Rightarrow> dir_item list" where
  "remove_all_empty_dir denied now at (Directory None t items) =
     (let items' = remove_items denied now at items in
      (Inr (),
       if items' = [] \<and> \<not> denied at then None
       else Some (Directory None (if items' = items then t else now) items')))"
| "remove_all_empty_dir denied now at (Directory (Some e) t items) =
     (Inl (Io e), Some (Directory (Some e) t items))"
| "remove_all_empty_dir denied now at n = (Inl (Io not_a_directory), Some n)"
| "remove_items denied now at [] = []"
| "remove_items denied now at (it # its) =
     (case dir_entry True it of
        None \<Rightarrow> [it]
      | Some e \<Rightarrow>
          (case (entry_type e, it) of
             (Inr FtDir, Item nm n) \<Rightarrow>
               (case snd (remove_all_empty_dir denied now (at @ [name e]) n) of
                  None \<Rightarrow> []
                | Some n' \<Rightarrow> [Item nm n'])
           | (Inr FtDirLink, _) \<Rightarrow> if denied (at @ [name e]) then [it] else []
           | (Inr FtFileLink, _) \<Rightarrow> if denied (at @ [name e]) then [it] else []
           | _ \<Rightarrow> [it]))
     @ remove_items denied now at its"

section \<open>Which files are listed\<close>

text \<open>
  The files below a directory, with the names on the way: those whose path can be read, is UTF-8 and,
  unless hidden ones are wanted, has no name that begins with a dot. Links are not followed.
\<close>

definition shown :: "bool \<Rightarrow> string \<Rightarrow> bool" where
  "shown include_hidden c \<longleftrightarrow> c \<noteq> [] \<and> (include_hidden \<or> hd c \<noteq> CHR ''.'')"

inductive file_at :: "bool \<Rightarrow> node \<Rightarrow> string list \<Rightarrow> node \<Rightarrow> bool" for include_hidden :: bool where
  Here: "Item (Utf8 c) f \<in> set items \<Longrightarrow> fst (classify f) = Inr FtFile \<Longrightarrow> shown include_hidden c \<Longrightarrow>
    file_at include_hidden (Directory None t items) [c] f"
| Below: "Item (Utf8 c) d \<in> set items \<Longrightarrow> shown include_hidden c \<Longrightarrow> file_at include_hidden d ps f \<Longrightarrow>
    file_at include_hidden (Directory None t items) (c # ps) f"

inductive_cases file_atE: "file_at include_hidden n ps f"
inductive_simps file_at_Directory: "file_at include_hidden (Directory r t items) ps f"

definition listed :: "string \<Rightarrow> string list \<Rightarrow> node \<Rightarrow> file_entry" where
  "listed prefix ps f =
     \<lparr>entry_type = Inr FtFile, name = foldl path_join prefix ps, is_hidden = (hd (last ps) = CHR ''.''),
      fe_size = snd (classify f), modified_time = unix_secs (modified f)\<rparr>"

lemma listed_Cons: "ps \<noteq> [] \<Longrightarrow> listed prefix (c # ps) f = listed (path_join prefix c) ps f"
  by (simp add: listed_def)

lemma file_at_not_Nil: "file_at include_hidden n ps f \<Longrightarrow> ps \<noteq> []"
  by (auto elim: file_at.cases)

lemma dir_entry_Some:
  "dir_entry include_hidden it = Some e \<longleftrightarrow>
     (\<exists>c n. it = Item (Utf8 c) n \<and> shown include_hidden c \<and>
        e = \<lparr>entry_type = fst (classify n), name = c, is_hidden = (hd c = CHR ''.''),
              fe_size = snd (classify n), modified_time = unix_secs (modified n)\<rparr>)"
proof (cases it)
  case (Item nm n)
  then show ?thesis by (cases nm) (auto simp: Let_def shown_def)
qed simp_all

lemma dir_entry_shown:
  "shown include_hidden c \<Longrightarrow> dir_entry include_hidden (Item (Utf8 c) n) =
     Some \<lparr>entry_type = fst (classify n), name = c, is_hidden = (hd c = CHR ''.''),
            fe_size = snd (classify n), modified_time = unix_secs (modified n)\<rparr>"
  by (auto simp: Let_def shown_def)

declare dir_entry.simps(3) [simp del]

lemma classify_cases:
  obtains (File) "fst (classify n) = Inr FtFile" | (Dir) r t items where "n = Directory r t items"
    | (Link) "fst (classify n) = Inr FtDirLink \<or> fst (classify n) = Inr FtFileLink"
  by (cases n) auto

lemma no_file_at [simp]: "fst (classify n) \<noteq> Inr FtDir \<Longrightarrow> \<not> file_at include_hidden n ps f"
  by (auto elim: file_at.cases)

text \<open>The files below the items of a directory: those of the first item and those of the rest.\<close>

definition listing :: "bool \<Rightarrow> string \<Rightarrow> node \<Rightarrow> file_entry set" where
  "listing include_hidden prefix n = {listed prefix ps f | ps f. file_at include_hidden n ps f}"

lemma file_at_items_Cons:
  "file_at h (Directory None t (it # its)) ps f \<longleftrightarrow>
     file_at h (Directory None t [it]) ps f \<or> file_at h (Directory None t its) ps f"
  by (auto simp: file_at_Directory)

lemma listing_Nil: "listing h prefix (Directory None t []) = {}"
  by (simp add: listing_def file_at_Directory)

lemma listing_Cons:
  "listing h prefix (Directory None t (it # its)) =
     listing h prefix (Directory None t [it]) \<union> listing h prefix (Directory None t its)"
  unfolding listing_def by (subst file_at_items_Cons) blast

lemma listing_hidden: "dir_entry h it = None \<Longrightarrow> listing h prefix (Directory None t [it]) = {}"
  by (auto simp: listing_def file_at_Directory dir_entry_shown)

lemma listing_file:
  assumes "shown h c" "fst (classify n) = Inr FtFile"
  shows "listing h prefix (Directory None t [Item (Utf8 c) n]) = {listed prefix [c] n}"
  using assms by (auto simp: listing_def file_at_Directory)

lemma listing_dir:
  assumes "shown h c" "fst (classify n) \<noteq> Inr FtFile"
  shows "listing h prefix (Directory None t [Item (Utf8 c) n]) = listing h (path_join prefix c) n"
proof -
  have "listed prefix (c # ps) f = listed (path_join prefix c) ps f" if "file_at h n ps f" for ps f
    using that by (intro listed_Cons file_at_not_Nil)
  then show ?thesis using assms by (auto simp: listing_def file_at_Directory) metis+
qed

lemma listing_time: "listing h prefix (Directory None t items) = listing h prefix (Directory None t' items)"
  by (auto simp: listing_def file_at_Directory)

lemma read_items_listing:
  "fst (classify n) = Inr FtDir \<longrightarrow>
     (case read_dir_recursive n prefix h of Inr es \<Rightarrow> set es | Inl _ \<Rightarrow> {}) = listing h prefix n"
  "set (read_items items prefix h) = listing h prefix (Directory None t items)"
proof (induction n prefix h and items prefix h rule: read_dir_recursive_read_items.induct)
  case (1 t' items prefix h)
  then show ?case using listing_time by auto
next
  case (2 e t' items prefix h)
  then show ?case by (simp add: listing_def file_at_Directory)
next
  case (6 it its prefix h)
  show ?case
  proof (cases "dir_entry h it")
    case None
    then show ?thesis using 6 by (simp add: listing_Cons [of _ _ _ it its] listing_hidden)
  next
    case (Some e)
    then obtain c n where it: "it = Item (Utf8 c) n" and c: "shown h c"
      and e: "e = \<lparr>entry_type = fst (classify n), name = c, is_hidden = (hd c = CHR ''.''),
              fe_size = snd (classify n), modified_time = unix_secs (modified n)\<rparr>"
      by (auto simp: dir_entry_Some)
    show ?thesis
    proof (cases n rule: classify_cases)
      case File
      then show ?thesis using 6 Some
        by (simp add: it e listing_Cons [of _ _ _ "Item (Utf8 c) n" its] listing_file [OF c] listed_def)
    next
      case (Dir r t items)
      then have "fst (classify n) = Inr FtDir" by simp
      with 6(1) [OF Some] have
        "(case read_dir_recursive n (path_join prefix c) h of Inr es \<Rightarrow> set es | Inl _ \<Rightarrow> {}) =
           listing h (path_join prefix c) n"
        by (simp add: it e)
      with \<open>fst (classify n) = Inr FtDir\<close> show ?thesis using 6(2) Some
        by (simp add: it e listing_Cons [of _ _ _ "Item (Utf8 c) n" its] listing_dir [OF c] split: sum.splits)
    next
      case Link
      then have "listing h (path_join prefix c) n = {}" by (auto simp: listing_def)
      then show ?thesis using 6 Some Link
        by (auto simp: it e listing_Cons [of _ _ _ "Item (Utf8 c) n" its] listing_dir [OF c])
    qed
  qed
qed (simp_all add: listing_Nil)

definition get_recursive_files :: "node \<Rightarrow> bool \<Rightarrow> anyhow_error + file_entry list" where
  "get_recursive_files n include_hidden = read_dir_recursive n [] include_hidden"

text \<open>What the operating system guarantees of names: no separator, and neither \<open>.\<close> nor \<open>..\<close>.\<close>

fun well_named :: "node \<Rightarrow> bool" and well_named_item :: "dir_item \<Rightarrow> bool" where
  "well_named (Directory _ _ items) = (\<forall>it \<in> set items. well_named_item it)"
| "well_named _ = True"
| "well_named_item (Item (Utf8 c) n) = (plain c \<and> well_named n)"
| "well_named_item (Item (NotUtf8 _) n) = well_named n"
| "well_named_item _ = True"

lemma file_at_plain:
  "file_at h n ps f \<Longrightarrow> well_named n \<Longrightarrow> \<forall>c \<in> set ps. plain c"
  by (induction rule: file_at.induct) auto

lemma path_join_not_Nil: "plain c \<Longrightarrow> path_join base c \<noteq> []"
  by (simp add: path_join_def plain_def)

lemma resolve_foldl:
  "base \<noteq> [] \<Longrightarrow> \<forall>c \<in> set ps. plain c \<Longrightarrow> resolve cwd (foldl path_join base ps) = resolve cwd base @ ps"
  by (induction ps arbitrary: base)
    (simp_all add: path_join_not_Nil resolve_join is_absolute_plain components_plain)

lemma foldl_relative:
  "base \<noteq> [] \<Longrightarrow> \<not> is_absolute base \<Longrightarrow> \<forall>c \<in> set ps. plain c \<Longrightarrow> \<not> is_absolute (foldl path_join base ps)"
proof (induction ps arbitrary: base)
  case (Cons c ps)
  have "\<not> is_absolute (path_join base c)"
    using Cons.prems is_absolute_plain [of c] by (cases base) (auto simp: path_join_def is_absolute_def)
  then show ?case using Cons by (simp add: path_join_not_Nil)
qed simp

text \<open>A listed name leads, from any base, to the place it was found at.\<close>

lemma listed_name_resolves:
  assumes "ps \<noteq> []" "\<forall>c \<in> set ps. plain c" "base \<noteq> []"
  shows "resolve cwd (path_join base (foldl path_join [] ps)) = resolve cwd base @ ps"
proof -
  obtain c qs where ps: "ps = c # qs" using assms(1) by (cases ps) auto
  have c: "plain c" "\<forall>c \<in> set qs. plain c" using assms(2) ps by auto
  have name: "foldl path_join [] ps = foldl path_join c qs"
    using c by (simp add: ps path_join_def is_absolute_plain)
  have rel: "\<not> is_absolute (foldl path_join c qs)"
    using c foldl_relative [of c qs] is_absolute_plain by (auto simp: plain_def)
  have "walk start (components (foldl path_join c qs)) = start @ ps" for start
    using resolve_foldl [of c qs start] c rel
    by (simp add: resolve_def ps is_absolute_plain components_plain plain_def)
  then show ?thesis using resolve_join [OF assms(3) rel] name by simp
qed

text \<open>C16: The recursive listing of a readable directory is complete and correct: its entries are exactly the
  regular and special files reached through readable directories by UTF-8 names (not hidden ones unless
  asked for, never through links), each with the size and time of the file, and named so that joining
  the name to any base path leads to the same place below that base.\<close>

theorem recursive_listing:
  assumes "get_recursive_files (Directory None t items) include_hidden = Inr es"
    and "well_named (Directory None t items)" "base \<noteq> []"
  shows "set es = {listed [] ps f | ps f. file_at include_hidden (Directory None t items) ps f} \<and>
    (\<forall>ps f. file_at include_hidden (Directory None t items) ps f \<longrightarrow>
       resolve cwd (path_join base (name (listed [] ps f))) = resolve cwd base @ ps)"
proof
  show "set es = {listed [] ps f | ps f. file_at include_hidden (Directory None t items) ps f}"
    using read_items_listing(2) [of items "[]" include_hidden t] assms(1)
    by (simp add: get_recursive_files_def listing_def)
  show "\<forall>ps f. file_at include_hidden (Directory None t items) ps f \<longrightarrow>
       resolve cwd (path_join base (name (listed [] ps f))) = resolve cwd base @ ps"
  proof (intro allI impI)
    fix ps f
    assume "file_at include_hidden (Directory None t items) ps f"
    then have "ps \<noteq> []" "\<forall>c \<in> set ps. plain c"
      using assms(2) by (auto dest: file_at_not_Nil file_at_plain)
    then show "resolve cwd (path_join base (name (listed [] ps f))) = resolve cwd base @ ps"
      using listed_name_resolves assms(3) by (simp add: listed_def)
  qed
qed

definition demo_tree :: "dir_item list" where
  "demo_tree =
     [Item (Utf8 ''a'') (RegularFile [1, 2] (Inr 7)), Item (Utf8 ''.h'') (RegularFile [] (Inr 7)),
      Item (Utf8 ''d'') (Directory None (Inr 1) [Item (Utf8 ''b'') (RegularFile [3] (Inr (-5))), Item (Utf8 ''l'') (LinkOther (Inr 0))]),
      Item (Utf8 ''e'') (Directory (Some (IoError (OsKind 13) [])) (Inr 1) [])]"

theorem recursive_listing_witness:
  "get_recursive_files (Directory None (Inr 0) demo_tree) False =
     Inr [\<lparr>entry_type = Inr FtFile, name = ''a'', is_hidden = False, fe_size = 2, modified_time = 7\<rparr>,
          \<lparr>entry_type = Inr FtFile, name = ''d/b'', is_hidden = False, fe_size = 1, modified_time = 0\<rparr>] \<and>
   resolve [] (path_join ''/x'' ''d/b'') = [''x'', ''d'', ''b'']"
proof -
  have run: "get_recursive_files (Directory None (Inr 0) demo_tree) False =
     Inr [\<lparr>entry_type = Inr FtFile, name = ''a'', is_hidden = False, fe_size = 2, modified_time = 7\<rparr>,
          \<lparr>entry_type = Inr FtFile, name = ''d/b'', is_hidden = False, fe_size = 1, modified_time = 0\<rparr>]"
    by (simp add: get_recursive_files_def demo_tree_def dir_entry.simps path_join_def is_absolute_def unix_secs_def)
  have "file_at False (Directory None (Inr 0) demo_tree) [''d'', ''b''] (RegularFile [3] (Inr (-5)))"
    by (simp add: demo_tree_def file_at_Directory shown_def)
  then show ?thesis
    using run recursive_listing [OF run, of "''/x''" "[]"]
    by (auto simp: demo_tree_def plain_def listed_def path_join_def is_absolute_def resolve_def components_def walk_def)
qed

section \<open>What removal keeps\<close>

text \<open>Everything in a tree that is neither a directory nor a link that can be seen, with its path.\<close>

fun kept :: "node \<Rightarrow> (os_name list \<times> node) list" and kept_items :: "dir_item list \<Rightarrow> (os_name list \<times> node) list" where
  "kept (Directory _ _ items) = kept_items items"
| "kept (RegularFile bs t) = [([], RegularFile bs t)]"
| "kept (Special t) = [([], Special t)]"
| "kept _ = []"
| "kept_items [] = []"
| "kept_items (Item nm n # its) = map (\<lambda>(ps, f). (nm # ps, f)) (kept n) @ kept_items its"
| "kept_items (_ # its) = kept_items its"

lemma kept_items_append: "kept_items (xs @ ys) = kept_items xs @ kept_items ys"
proof (induction xs)
  case (Cons x xs)
  then show ?case by (cases x) simp_all
qed simp

definition kept_option :: "node option \<Rightarrow> (os_name list \<times> node) list" where
  "kept_option r = (case r of Some n \<Rightarrow> kept n | None \<Rightarrow> [])"

lemma dir_entry_type: "dir_entry h (Item nm n) = Some e \<Longrightarrow> entry_type e = fst (classify n)"
  by (auto simp: dir_entry_Some)

lemma kept_link: "fst (classify n) = Inr FtDirLink \<or> fst (classify n) = Inr FtFileLink \<Longrightarrow> kept n = []"
  by (cases n) auto

text \<open>One item: a directory is replaced by what remains of it, a link may go, the rest stays.\<close>

lemma remove_item_cases:
  assumes "dir_entry True it = Some e"
  obtains (Dir) nm r t items where "it = Item nm (Directory r t items)" "entry_type e = Inr FtDir"
    | (Link) nm n where "it = Item nm n" "kept n = []" "entry_type e = Inr FtDirLink \<or> entry_type e = Inr FtFileLink"
    | (File) nm n where "it = Item nm n" "entry_type e = Inr FtFile"
proof -
  from assms obtain c n where it: "it = Item (Utf8 c) n" by (auto simp: dir_entry_Some)
  have e: "entry_type e = fst (classify n)" using assms by (auto simp: it intro: dir_entry_type)
  show thesis
    using Dir Link File it e by (cases n) auto
qed

lemma kept_remove:
  "kept_option (snd (remove_all_empty_dir denied now at n)) = kept n"
  "kept_items (remove_items denied now at items) = kept_items items"
proof (induction denied now at n and denied now at items rule: remove_all_empty_dir_remove_items.induct)
  case (1 denied now at t items)
  then show ?case by (auto simp: Let_def kept_option_def)
next
  case (5 denied now at it its)
  have rest: "kept_items (it # its) = kept_items [it] @ kept_items its"
    using kept_items_append [of "[it]" its] by simp
  show ?case
  proof (cases "dir_entry True it")
    case None
    then show ?thesis using 5(2) kept_items_append [of "[it]" "remove_items denied now at its"] by (simp add: rest)
  next
    case (Some e)
    then show ?thesis
    proof (cases rule: remove_item_cases)
      case (Dir nm r t items)
      have "kept_option (snd (remove_all_empty_dir denied now (at @ [name e]) (Directory r t items))) =
          kept (Directory r t items)"
        using 5(1) [OF Some] Dir by simp
      then show ?thesis using 5(2) Some Dir
        by (simp add: rest kept_items_append kept_option_def split: option.splits)
    next
      case (Link nm n)
      then show ?thesis using 5(2) Some by (auto simp: rest kept_items_append)
    next
      case (File nm n)
      then show ?thesis using 5(2) Some by (simp add: rest kept_items_append)
    qed
  qed
qed (simp_all add: kept_option_def)

text \<open>C28: \<open>remove_all_empty_dir\<close> never removes a file: whatever removals the system refuses and whatever
  cannot be read, every regular and special file of the tree is still there afterwards, at its path,
  with its content, in its order.\<close>

theorem remove_keeps_files: "kept_option (snd (remove_all_empty_dir denied now at n)) = kept n"
  by (rule kept_remove(1))

text \<open>A tree the walk can see all of: readable, with UTF-8 names.\<close>

fun visible :: "node \<Rightarrow> bool" and visible_item :: "dir_item \<Rightarrow> bool" where
  "visible (Directory r _ items) = (r = None \<and> (\<forall>it \<in> set items. visible_item it))"
| "visible _ = True"
| "visible_item (Item (Utf8 c) n) = (c \<noteq> [] \<and> visible n)"
| "visible_item _ = False"

text \<open>No link and nothing that cannot be seen below the top, and no directory without an entry.\<close>

fun tidy :: "node \<Rightarrow> bool" and tidy_item :: "dir_item \<Rightarrow> bool" where
  "tidy (Directory _ _ items) = (items \<noteq> [] \<and> (\<forall>it \<in> set items. tidy_item it))"
| "tidy _ = True"
| "tidy_item (Item _ n) = (fst (classify n) \<noteq> Inr FtDirLink \<and> fst (classify n) \<noteq> Inr FtFileLink \<and> tidy n)"
| "tidy_item _ = False"

lemma remove_tidies:
  "visible n \<Longrightarrow> fst (classify n) = Inr FtDir \<Longrightarrow>
     (case snd (remove_all_empty_dir (\<lambda>_. False) now at n) of Some n' \<Rightarrow> fst (classify n') = Inr FtDir \<and> tidy n' | None \<Rightarrow> True)"
  "\<forall>it \<in> set items. visible_item it \<Longrightarrow> it' \<in> set (remove_items (\<lambda>_. False) now at items) \<Longrightarrow> tidy_item it'"
proof (induction "\<lambda>_ :: string list. False" now at n and "\<lambda>_ :: string list. False" now at items
    arbitrary: and it' rule: remove_all_empty_dir_remove_items.induct)
  case (1 now at t items)
  then show ?case by (auto simp: Let_def)
next
  case (5 now at it its)
  from 5(3) obtain c n where it: "it = Item (Utf8 c) n" and c: "c \<noteq> []" and n: "visible n"
    by (cases it rule: visible_item.cases) auto
  then have e: "dir_entry True it = Some \<lparr>entry_type = fst (classify n), name = c, is_hidden = (hd c = CHR ''.''),
            fe_size = snd (classify n), modified_time = unix_secs (modified n)\<rparr>" (is "_ = Some ?e")
    by (simp add: dir_entry_shown shown_def)
  show ?case
  proof (cases n rule: classify_cases)
    case File
    then show ?thesis using 5 it e by (cases n) auto
  next
    case (Dir r t items)
    then have dir: "fst (classify n) = Inr FtDir" by simp
    have "case snd (remove_all_empty_dir (\<lambda>_. False) now (at @ [c]) n) of
        Some n' \<Rightarrow> fst (classify n') = Inr FtDir \<and> tidy n' | None \<Rightarrow> True"
      using 5(1) [OF e] n dir by (simp add: it)
    then show ?thesis using 5(2) 5(3,4) it e dir
      by (auto split: option.splits)
  next
    case Link
    then show ?thesis using 5 it e by auto
  qed
qed simp_all

lemma tidy_keeps:
  "tidy n \<Longrightarrow> fst (classify n) \<noteq> Inr FtDirLink \<Longrightarrow> fst (classify n) \<noteq> Inr FtFileLink \<Longrightarrow> kept n \<noteq> []"
  "tidy_item it \<Longrightarrow> kept_items [it] \<noteq> []"
proof (induction n and it rule: tidy_tidy_item.induct)
  case (1 r t items)
  then obtain it its where items: "items = it # its" by (cases items) auto
  then show ?case using 1 kept_items_append [of "[it]" its] by simp
qed auto

text \<open>C29: On a tree that can be read and whose links and empty directories may be removed,
  \<open>remove_all_empty_dir\<close> does what its name says: the directory itself goes exactly when there was no
  file anywhere below it, and otherwise what remains has neither links nor empty directories.\<close>

theorem remove_all_empty_dirs:
  assumes "visible (Directory None t items)"
  shows "(snd (remove_all_empty_dir (\<lambda>_. False) now at (Directory None t items)) = None \<longleftrightarrow>
      kept (Directory None t items) = []) \<and>
    (\<forall>n'. snd (remove_all_empty_dir (\<lambda>_. False) now at (Directory None t items)) = Some n' \<longrightarrow> tidy n')"
proof (cases "snd (remove_all_empty_dir (\<lambda>_. False) now at (Directory None t items))")
  case None
  then show ?thesis using kept_remove(1) [of "\<lambda>_. False" now at "Directory None t items"]
    by (simp add: kept_option_def)
next
  case (Some n')
  have n': "fst (classify n') = Inr FtDir" "tidy n'"
    using remove_tidies(1) [OF assms, of now at] Some by (simp_all del: remove_all_empty_dir.simps)
  have "kept n' = kept (Directory None t items)"
    using kept_remove(1) [of "\<lambda>_. False" now at "Directory None t items"] Some by (simp add: kept_option_def)
  moreover have "kept n' \<noteq> []" using tidy_keeps(1) n' by simp
  ultimately show ?thesis using Some n' by simp
qed

theorem remove_all_empty_dirs_witness:
  "snd (remove_all_empty_dir (\<lambda>_. False) (Inr 9) [] (Directory None (Inr 0)
      [Item (Utf8 ''d'') (Directory None (Inr 1) []), Item (Utf8 ''l'') (LinkToDir (Inr 1))])) = None"
  using remove_all_empty_dirs [of "Inr 0" "[Item (Utf8 ''d'') (Directory None (Inr 1) []), Item (Utf8 ''l'') (LinkToDir (Inr 1))]" "Inr 9" "[]"]
  by simp

end
