(* ===== verification/Disk.thy ===== *)
theory Disk imports Paths begin

text \<open>
  The part of \<open>std::fs\<close>, \<open>tokio::fs\<close> and \<open>filetime\<close> the file transfer calls, on Unix: a disk is a map
  from places (component lists from the root) to directories and inodes, so that an open file stays
  the same file when its name changes. There are no links. Every call takes the next of \<open>faults\<close>, a
  script of what goes wrong: a short read, or an error (of a write, after some bytes); when the script
  is used up, nothing goes wrong.
\<close>

datatype dentry = DirNode | FileNode nat

datatype fault = Fine | Short nat | Refuse nat io_error

record disk =
  names :: "string list \<rightharpoonup> dentry"
  inodes :: "nat \<Rightarrow> bytes \<times> int" \<comment> \<open>content, modification time\<close>
  fresh :: nat
  cwd :: "string list"
  clock :: int
  faults :: "fault list"

datatype handle = FileHandle nat nat \<comment> \<open>inode and offset\<close> | DirHandle

definition content :: "disk \<Rightarrow> nat \<Rightarrow> bytes" where
  "content d i = fst (inodes d i)"

definition not_found :: io_error where "not_found = IoError NotFound ''No such file or directory''"
definition is_a_directory :: io_error where "is_a_directory = IoError (OsKind 21) ''Is a directory''"
definition not_directory :: io_error where "not_directory = IoError (OsKind 20) ''Not a directory''"

definition take_fault :: "disk \<Rightarrow> fault \<times> disk" where
  "take_fault d = (case faults d of [] \<Rightarrow> (Fine, d) | f # fs \<Rightarrow> (f, d\<lparr>faults := fs\<rparr>))"

text \<open>A call that fails without effect when the script says so.\<close>

definition attempt_io :: "disk \<Rightarrow> (disk \<Rightarrow> (io_error + 'a) \<times> disk) \<Rightarrow> (io_error + 'a) \<times> disk" where
  "attempt_io d f =
     (case take_fault d of
        (Refuse _ e, d1) \<Rightarrow> (Inl e, d1)
      | (_, d1) \<Rightarrow> f d1)"

definition place :: "disk \<Rightarrow> string \<Rightarrow> string list" where
  "place d p = resolve (cwd d) p"

section \<open>Names\<close>

definition fs_open :: "disk \<Rightarrow> string \<Rightarrow> (io_error + handle) \<times> disk" where
  "fs_open d p = attempt_io d (\<lambda>d.
     (case names d (place d p) of
        None \<Rightarrow> Inl not_found
      | Some (FileNode i) \<Rightarrow> Inr (FileHandle i 0)
      | Some DirNode \<Rightarrow> Inr DirHandle, d))"

definition fs_create :: "disk \<Rightarrow> string \<Rightarrow> (io_error + handle) \<times> disk" where
  "fs_create d p = attempt_io d (\<lambda>d.
     let q = place d p in
     case names d q of
       Some DirNode \<Rightarrow> (Inl is_a_directory, d)
     | Some (FileNode i) \<Rightarrow> (Inr (FileHandle i 0), d\<lparr>inodes := (inodes d)(i := ([], clock d))\<rparr>)
     | None \<Rightarrow>
         (case names d (butlast q) of
            Some DirNode \<Rightarrow>
              (Inr (FileHandle (fresh d) 0),
               d\<lparr>names := (names d)(q \<mapsto> FileNode (fresh d)), inodes := (inodes d)(fresh d := ([], clock d)),
                 fresh := fresh d + 1\<rparr>)
          | Some (FileNode _) \<Rightarrow> (Inl not_directory, d)
          | None \<Rightarrow> (Inl not_found, d)))"

text \<open>\<open>rename\<close>: onto a file it replaces it; a directory moves with everything below it.\<close>

definition move_below :: "string list \<Rightarrow> string list \<Rightarrow> (string list \<rightharpoonup> dentry) \<Rightarrow> string list \<rightharpoonup> dentry" where
  "move_below src dst m = (\<lambda>q.
     if take (length dst) q = dst then m (src @ drop (length dst) q)
     else if take (length src) q = src then None
     else m q)"

definition fs_rename :: "disk \<Rightarrow> string \<Rightarrow> string \<Rightarrow> (io_error + unit) \<times> disk" where
  "fs_rename d src dst = attempt_io d (\<lambda>d.
     let s = place d src; t = place d dst in
     case names d s of
       None \<Rightarrow> (Inl not_found, d)
     | Some (FileNode i) \<Rightarrow>
         (case names d t of
            Some DirNode \<Rightarrow> (Inl is_a_directory, d)
          | Some (FileNode _) \<Rightarrow> (Inr (), d\<lparr>names := (names d)(s := None, t \<mapsto> FileNode i)\<rparr>)
          | None \<Rightarrow>
              (if names d (butlast t) = Some DirNode
               then (Inr (), d\<lparr>names := (names d)(s := None, t \<mapsto> FileNode i)\<rparr>) else (Inl not_found, d)))
     | Some DirNode \<Rightarrow>
         (if s \<noteq> t \<and> names d t = None \<and> names d (butlast t) = Some DirNode \<and> take (length s) t \<noteq> s
          then (Inr (), d\<lparr>names := move_below s t (names d)\<rparr>)
          else (Inl not_directory, d)))"

definition set_file_mtime :: "disk \<Rightarrow> string \<Rightarrow> int \<Rightarrow> (io_error + unit) \<times> disk" where
  "set_file_mtime d p t = attempt_io d (\<lambda>d.
     case names d (place d p) of
       None \<Rightarrow> (Inl not_found, d)
     | Some DirNode \<Rightarrow> (Inr (), d)
     | Some (FileNode i) \<Rightarrow> (Inr (), d\<lparr>inodes := (inodes d)(i := (content d i, t))\<rparr>))"

definition fs_remove_file :: "disk \<Rightarrow> string \<Rightarrow> (io_error + unit) \<times> disk" where
  "fs_remove_file d p = attempt_io d (\<lambda>d.
     case names d (place d p) of
       None \<Rightarrow> (Inl not_found, d)
     | Some DirNode \<Rightarrow> (Inl is_a_directory, d)
     | Some (FileNode i) \<Rightarrow> (Inr (), d\<lparr>names := (names d)(place d p := None)\<rparr>))"

text \<open>\<open>create_dir_all\<close>: the missing directories on the way, from the top; a file on the way is an error.\<close>

fun make_dirs :: "(string list \<rightharpoonup> dentry) \<Rightarrow> string list \<Rightarrow> string list \<Rightarrow> (io_error + unit) \<times> (string list \<rightharpoonup> dentry)" where
  "make_dirs m at [] = (Inr (), m)"
| "make_dirs m at (c # cs) =
     (case m (at @ [c]) of
        Some (FileNode _) \<Rightarrow> (Inl not_directory, m)
      | Some DirNode \<Rightarrow> make_dirs m (at @ [c]) cs
      | None \<Rightarrow> make_dirs (m(at @ [c] \<mapsto> DirNode)) (at @ [c]) cs)"

definition create_dir_all :: "disk \<Rightarrow> string list \<Rightarrow> (io_error + unit) \<times> disk" where
  "create_dir_all d q = attempt_io d (\<lambda>d.
     case make_dirs (names d) [] q of (r, m) \<Rightarrow> (r, d\<lparr>names := m\<rparr>))"

section \<open>Content\<close>

text \<open>One \<open>read\<close> into a buffer of \<open>n\<close> bytes: what was read, and the handle moved on.\<close>

definition fs_read :: "disk \<Rightarrow> handle \<Rightarrow> nat \<Rightarrow> (io_error + bytes) \<times> handle \<times> disk" where
  "fs_read d h n =
     (case take_fault d of
        (Refuse _ e, d1) \<Rightarrow> (Inl e, h, d1)
      | (f, d1) \<Rightarrow>
          (case h of
             DirHandle \<Rightarrow> (Inl is_a_directory, h, d1)
           | FileHandle i off \<Rightarrow>
               let got = take (case f of Short k \<Rightarrow> min n (k + 1) | _ \<Rightarrow> n) (drop off (content d i))
               in (Inr got, FileHandle i (off + length got), d1)))"

text \<open>Bytes put at an offset; a gap before it is filled with zeros.\<close>

definition splice :: "nat \<Rightarrow> bytes \<Rightarrow> bytes \<Rightarrow> bytes" where
  "splice off bs data = take off (data @ replicate (off - length data) 0) @ bs @ drop (off + length bs) data"

definition put_bytes :: "disk \<Rightarrow> nat \<Rightarrow> nat \<Rightarrow> bytes \<Rightarrow> disk" where
  "put_bytes d i off bs = d\<lparr>inodes := (inodes d)(i := (splice off bs (content d i), clock d))\<rparr>"

definition fs_write_all :: "disk \<Rightarrow> handle \<Rightarrow> bytes \<Rightarrow> (io_error + unit) \<times> handle \<times> disk" where
  "fs_write_all d h bs =
     (case h of
        DirHandle \<Rightarrow> (Inl is_a_directory, h, d)
      | FileHandle i off \<Rightarrow>
          (case take_fault d of
             (Refuse k e, d1) \<Rightarrow>
               (Inl e, FileHandle i (off + length (take k bs)), put_bytes d1 i off (take k bs))
           | (_, d1) \<Rightarrow> (Inr (), FileHandle i (off + length bs), put_bytes d1 i off bs)))"

definition sync_all :: "disk \<Rightarrow> handle \<Rightarrow> (io_error + unit) \<times> disk" where
  "sync_all d h = attempt_io d (\<lambda>d. (Inr (), d))"

section \<open>Facts\<close>

lemma take_fault_none [simp]: "faults d = [] \<Longrightarrow> take_fault d = (Fine, d)"
  by (simp add: take_fault_def)

lemma attempt_io_fine [simp]: "faults d = [] \<Longrightarrow> attempt_io d f = f d"
  by (simp add: attempt_io_def)

lemma take_fault_frame: "take_fault d = (f, d1) \<Longrightarrow>
    names d1 = names d \<and> inodes d1 = inodes d \<and> fresh d1 = fresh d \<and> cwd d1 = cwd d \<and> clock d1 = clock d"
  by (auto simp: take_fault_def split: list.splits)

lemma splice_end [simp]: "off = length data \<Longrightarrow> splice off bs data = data @ bs"
  by (simp add: splice_def)

lemma fs_read_length: "fs_read d h n = (Inr got, h', d') \<Longrightarrow> length got \<le> n"
  by (auto simp: fs_read_def Let_def split: prod.splits fault.splits handle.splits)

lemma fs_read_fine [simp]:
  "faults d = [] \<Longrightarrow> fs_read d (FileHandle i off) n =
     (Inr (take n (drop off (content d i))), FileHandle i (off + length (take n (drop off (content d i)))), d)"
  by (simp add: fs_read_def Let_def)

lemma make_dirs_keeps: "m q = Some e \<Longrightarrow> snd (make_dirs m at cs) q = Some e"
proof (induction cs arbitrary: m at)
  case (Cons c cs)
  have "(m(at @ [c] \<mapsto> DirNode)) q = Some e" if "m (at @ [c]) = None"
    using that Cons.prems by auto
  then show ?case using Cons by (auto split: option.splits dentry.splits)
qed simp

lemma make_dirs_only_dirs: "snd (make_dirs m at cs) q = Some (FileNode i) \<Longrightarrow> m q = Some (FileNode i)"
  by (induction m at cs rule: make_dirs.induct) (auto split: option.splits dentry.splits if_splits)

lemma make_dirs_dir:
  "\<forall>k \<le> length cs. \<forall>i. m (at @ take k cs) \<noteq> Some (FileNode i) \<Longrightarrow> m at = Some DirNode \<Longrightarrow>
     snd (make_dirs m at cs) (at @ cs) = Some DirNode"
proof (induction m at cs rule: make_dirs.induct)
  case (2 m at c cs)
  have no: "\<forall>i. m (at @ [c]) \<noteq> Some (FileNode i)"
    using 2(3) [rule_format, of 1] by simp
  have rest: "m ((at @ [c]) @ take k cs) \<noteq> Some (FileNode i)" if "k \<le> length cs" for k i
    using 2(3) [rule_format, of "Suc k"] that by simp
  show ?case
  proof (cases "m (at @ [c])")
    case None
    have "snd (make_dirs (m(at @ [c] \<mapsto> DirNode)) (at @ [c]) cs) ((at @ [c]) @ cs) = Some DirNode"
    proof (rule 2(1) [OF None])
      show "\<forall>k\<le>length cs. \<forall>i. (m(at @ [c] \<mapsto> DirNode)) ((at @ [c]) @ take k cs) \<noteq> Some (FileNode i)"
        using rest by auto
    qed simp
    then show ?thesis using None by simp
  next
    case (Some e)
    then show ?thesis using 2(2) [OF Some] rest no by (cases e) auto
  qed
qed simp

text \<open>Only prefixes of the wanted directory are new.\<close>

lemma make_dirs_prefix: "snd (make_dirs m at cs) q \<noteq> m q \<Longrightarrow> \<exists>k. k \<le> length cs \<and> q = at @ take k cs"
proof (induction cs arbitrary: m at)
  case (Cons c cs)
  show ?case
  proof (cases "q = at @ [c]")
    case True
    then show ?thesis by (intro exI [of _ 1]) simp
  next
    case False
    have "\<exists>m'. m' q = m q \<and> (snd (make_dirs m at (c # cs)) q = m q \<or> snd (make_dirs m at (c # cs)) q = snd (make_dirs m' (at @ [c]) cs) q)"
    proof (cases "m (at @ [c])")
      case None
      then show ?thesis using False by (intro exI [of _ "m(at @ [c] \<mapsto> DirNode)"]) simp
    next
      case (Some e)
      then show ?thesis by (cases e) auto
    qed
    then obtain m' where "snd (make_dirs m' (at @ [c]) cs) q \<noteq> m' q" using Cons.prems by metis
    from Cons.IH [OF this] obtain k where "k \<le> length cs" "q = (at @ [c]) @ take k cs" by blast
    then show ?thesis by (intro exI [of _ "Suc k"]) simp
  qed
qed simp

end
