(* ===== verification/Compress.thy ===== *)
theory Compress imports Rust_Prelude begin

text \<open>
  \<open>libs/hbb_common/src/compress.rs\<close>. zstd's block compressor and decompressor are arguments: \<open>zc\<close> takes
  the data and the level, \<open>zd\<close> the data and the capacity of the output. The thread-local contexts are
  \<open>RefCell\<close>s: \<open>busy\<close> says that \<open>try_borrow_mut\<close> fails. Both functions answer every failure with the
  empty vector.
\<close>

type_synonym 'e compressor = "bytes \<Rightarrow> int \<Rightarrow> 'e + bytes"
type_synonym 'e decompressor = "bytes \<Rightarrow> nat \<Rightarrow> 'e + bytes"

definition compress :: "'e compressor \<Rightarrow> bool \<Rightarrow> bytes \<Rightarrow> int \<Rightarrow> bytes" where
  "compress zc busy data level =
     (if busy then []
      else case zc data level of Inr res \<Rightarrow> res | Inl err \<Rightarrow> [])"

definition decompress_cap :: "bytes \<Rightarrow> usize" where
  "decompress_cap data =
     (let max_n = 1024 * 1024 * 64;
          min_n = 1024 * 1024;
          n = 30 * word_of_nat (length data);
          n = (if n > max_n then max_n else n)
      in if n < min_n then min_n else n)"

definition decompress :: "'e decompressor \<Rightarrow> bool \<Rightarrow> bytes \<Rightarrow> bytes" where
  "decompress zd busy data =
     (if busy then []
      else case zd data (unat (decompress_cap data)) of Inr res \<Rightarrow> res | Inl err \<Rightarrow> [])"

lemma decompress_cap_bounds:
  "1048576 \<le> unat (decompress_cap data)" "unat (decompress_cap data) \<le> 67108864"
  by (auto simp: decompress_cap_def Let_def not_less word_less_nat_alt word_le_nat_alt)

lemma decompress_cap_eq:
  assumes "length data < 2 ^ 59"
  shows "unat (decompress_cap data) = max 1048576 (min 67108864 (30 * length data))"
proof -
  have "unat (30 * word_of_nat (length data) :: usize) = 30 * length data"
    using assms by (simp add: unat_word_ariths unat_of_nat_small)
  then show ?thesis
    by (simp add: decompress_cap_def Let_def word_less_nat_alt)
qed

text \<open>
  What the documentation of zstd's block interface promises: a block decompresses to what was
  compressed if it fits the capacity, and fails otherwise; nothing longer than the capacity comes out.
\<close>

definition zstd_law :: "'e compressor \<Rightarrow> 'e decompressor \<Rightarrow> bool" where
  "zstd_law zc zd \<longleftrightarrow>
     (\<forall>d l r cap. zc d l = Inr r \<longrightarrow>
        (if length d \<le> cap then zd r cap = Inr d else (\<exists>e. zd r cap = Inl e))) \<and>
     (\<forall>d cap r. zd d cap = Inr r \<longrightarrow> length r \<le> cap)"

lemma zstd_lawD:
  assumes "zstd_law zc zd"
  shows "zc d l = Inr r \<Longrightarrow> length d \<le> cap \<Longrightarrow> zd r cap = Inr d"
    and "zc d l = Inr r \<Longrightarrow> cap < length d \<Longrightarrow> \<exists>e. zd r cap = Inl e"
    and "zd d cap = Inr r \<Longrightarrow> length r \<le> cap"
  using assms unfolding zstd_law_def by (metis not_less)+

text \<open>A concrete pair with these laws: the data behind one tag byte.\<close>

definition store_c :: "unit compressor" where
  "store_c d l = Inr (0x28 # d)"

fun store_d :: "unit decompressor" where
  "store_d [] cap = Inl ()"
| "store_d (b # d) cap = (if b = 0x28 \<and> length d \<le> cap then Inr d else Inl ())"

lemma store_law: "zstd_law store_c store_d"
proof -
  have "length r \<le> cap" if "store_d d cap = Inr r" for d cap r
    using that by (cases d) (auto split: if_splits)
  then show ?thesis by (auto simp: zstd_law_def store_c_def)
qed

text \<open>
  C33: Decompression gives back compressed data whenever the original is at most 1 MiB or at most 30
  times (and at most 64 MiB) what it was compressed to, and otherwise silently gives the empty
  vector.
\<close>

theorem compress_roundtrip:
  assumes "zstd_law zc zd" "zc data level = Inr packed" "length packed < 2 ^ 59"
  shows "decompress zd False (compress zc False data level) =
    (if length data \<le> max 1048576 (min 67108864 (30 * length packed)) then data else [])"
proof -
  let ?cap = "unat (decompress_cap packed)"
  have "compress zc False data level = packed" using assms(2) by (simp add: compress_def)
  moreover have "decompress zd False packed = (if length data \<le> ?cap then data else [])"
    using zstd_lawD(1,2) [OF assms(1,2), of ?cap] by (auto simp: decompress_def not_le)
  ultimately show ?thesis by (simp only: decompress_cap_eq [OF assms(3)])
qed

theorem compress_roundtrip_witness:
  "decompress store_d False (compress store_c False [1, 2] 3) =
    (if length [1, 2 :: u8] \<le> max 1048576 (min 67108864 (30 * length [0x28, 1, 2 :: u8])) then [1, 2] else [])"
  by (rule compress_roundtrip [OF store_law]) (simp_all add: store_c_def)

text \<open>
  Whatever bytes a peer sends, decompression yields at most 64 MiB.
\<close>

theorem decompress_bounded:
  assumes "zstd_law zc zd"
  shows "length (decompress zd busy data) \<le> 64 * 1024 * 1024"
proof -
  have "length r \<le> 67108864" if "zd data (unat (decompress_cap data)) = Inr r" for r
    using zstd_lawD(3) [OF assms that] decompress_cap_bounds(2) [of data] by simp
  then show ?thesis by (auto simp: decompress_def split: sum.splits)
qed

theorem decompress_bounded_witness: "length (decompress store_d False [0x28, 7]) \<le> 64 * 1024 * 1024"
  by (rule decompress_bounded [OF store_law])

end
