(* ===== verification/File_Transfer.thy ===== *)
theory File_Transfer imports Dir_Walk Disk Compress begin

text \<open>
  File transfer, the rest of \<open>libs/hbb_common/src/fs.rs\<close>: a \<open>TransferJob\<close> reads the files of a tree as
  blocks of at most 128 KiB, or writes blocks it is given to files. A file being written is named
  \<open>.download\<close> until the next one is begun. The zstd functions are those of \<open>Compress\<close>; the thread's
  contexts are free (a job holds them for one call only). Counters wrap, as in a release build, except
  that \<open>checks\<close> says whether the sum of the sizes may panic.
\<close>

section \<open>Jobs\<close>

record transfer_job =
  tj_id :: i32
  tj_path :: string
  tj_files :: "file_entry list"
  tj_file_num :: i32
  tj_file :: "handle option"
  tj_total_size :: u64
  tj_finished_size :: u64
  tj_transfered :: u64

definition transfer_job_default :: transfer_job where
  "transfer_job_default =
     \<lparr>tj_id = 0, tj_path = [], tj_files = [], tj_file_num = 0, tj_file = None, tj_total_size = 0,
      tj_finished_size = 0, tj_transfered = 0\<rparr>"

text \<open>\<open>i32 as usize\<close>: the sign is extended.\<close>

definition as_usize :: "i32 \<Rightarrow> nat" where
  "as_usize n = unat (scast n :: usize)"

fun sum_sizes :: "bool \<Rightarrow> file_entry list \<Rightarrow> u64 \<Rightarrow> u64 outcome" where
  "sum_sizes checks [] acc = Ret acc"
| "sum_sizes checks (f # fs) acc = obind (rust_add checks acc (fe_size f)) (sum_sizes checks fs)"

definition new_write :: "bool \<Rightarrow> i32 \<Rightarrow> string \<Rightarrow> file_entry list \<Rightarrow> transfer_job outcome" where
  "new_write checks i path files =
     obind (sum_sizes checks files 0) (\<lambda>total.
       Ret (transfer_job_default\<lparr>tj_id := i, tj_path := path, tj_files := files, tj_total_size := total\<rparr>))"

definition new_read :: "bool \<Rightarrow> i32 \<Rightarrow> string \<Rightarrow> node \<Rightarrow> bool \<Rightarrow> (anyhow_error + transfer_job) outcome" where
  "new_read checks i path n include_hidden =
     (case get_recursive_files n include_hidden of
        Inl e \<Rightarrow> Ret (Inl e)
      | Inr files \<Rightarrow>
          obind (sum_sizes checks files 0) (\<lambda>total.
            Ret (Inr (transfer_job_default\<lparr>tj_id := i, tj_path := path, tj_files := files, tj_total_size := total\<rparr>))))"

definition set_files :: "transfer_job \<Rightarrow> file_entry list \<Rightarrow> transfer_job" where
  "set_files job files = job\<lparr>tj_files := files\<rparr>"

text \<open>What the owner of a job may ask it.\<close>

definition job_files :: "transfer_job \<Rightarrow> file_entry list" where [simp]: "job_files job = tj_files job"
definition job_id :: "transfer_job \<Rightarrow> i32" where [simp]: "job_id job = tj_id job"
definition job_total_size :: "transfer_job \<Rightarrow> u64" where [simp]: "job_total_size job = tj_total_size job"
definition job_finished_size :: "transfer_job \<Rightarrow> u64" where [simp]: "job_finished_size job = tj_finished_size job"
definition job_transfered :: "transfer_job \<Rightarrow> u64" where [simp]: "job_transfered job = tj_transfered job"
definition job_file_num :: "transfer_job \<Rightarrow> i32" where [simp]: "job_file_num job = tj_file_num job"

definition job_join :: "transfer_job \<Rightarrow> string \<Rightarrow> string" where
  "job_join job nam = (if nam = [] then tj_path job else path_join (tj_path job) nam)"

definition final_path :: "transfer_job \<Rightarrow> nat \<Rightarrow> string" where
  "final_path job k = job_join job (name (tj_files job ! k))"

definition download_path :: "transfer_job \<Rightarrow> nat \<Rightarrow> string" where
  "download_path job k = final_path job k @ ''.download''"

definition modify_time :: "transfer_job \<Rightarrow> disk \<Rightarrow> disk" where
  "modify_time job d =
     (let k = as_usize (tj_file_num job) in
      if k < length (tj_files job) then
        let d1 = snd (fs_rename d (download_path job k) (final_path job k))
        in snd (set_file_mtime d1 (final_path job k) (sint (modified_time (tj_files job ! k))))
      else d)"

definition remove_download_file :: "transfer_job \<Rightarrow> disk \<Rightarrow> disk" where
  "remove_download_file job d =
     (let k = as_usize (tj_file_num job) in
      if k < length (tj_files job) then snd (fs_remove_file d (download_path job k)) else d)"

section \<open>Writing\<close>

definition parent_dirs :: "disk \<Rightarrow> string \<Rightarrow> disk" where
  "parent_dirs d p =
     (case path_parent p of
        Some (absolute, cs) \<Rightarrow> snd (create_dir_all d (walk (if absolute then [] else cwd d) cs))
      | None \<Rightarrow> d)"

text \<open>
  The first half of \<open>write\<close>: when the block begins another file, or none is open, the file before is
  published, its handle synced, and the new one created. The job comes back as the code leaves it, also
  when this fails.
\<close>

definition open_for_write :: "transfer_job \<Rightarrow> disk \<Rightarrow> i32 \<Rightarrow> (anyhow_error + unit) \<times> transfer_job \<times> disk" where
  "open_for_write job d num =
     (let k = as_usize num in
      if k \<noteq> as_usize (tj_file_num job) \<or> tj_file job = None then
        let d1 = modify_time job d in
        case (case tj_file job of Some h \<Rightarrow> sync_all d1 h | None \<Rightarrow> (Inr (), d1)) of
          (Inl e, d2) \<Rightarrow> (Inl (Io e), job, d2)
        | (Inr _, d2) \<Rightarrow>
            let job1 = job\<lparr>tj_file_num := num\<rparr>;
                d3 = parent_dirs d2 (final_path job1 k)
            in case fs_create d3 (download_path job1 k) of
                 (Inl e, d4) \<Rightarrow> (Inl (Io e), job1, d4)
               | (Inr h, d4) \<Rightarrow> (Inr (), job1\<lparr>tj_file := Some h\<rparr>, d4)
      else (Inr (), job, d))"

definition write_data :: "transfer_job \<Rightarrow> disk \<Rightarrow> handle \<Rightarrow> bytes \<Rightarrow> nat \<Rightarrow>
    (anyhow_error + unit) \<times> transfer_job \<times> disk" where
  "write_data job d h tmp received =
     (case fs_write_all d h tmp of
        (Inl e, h', d') \<Rightarrow> (Inl (Io e), job\<lparr>tj_file := Some h'\<rparr>, d')
      | (Inr _, h', d') \<Rightarrow>
          (Inr (),
           job\<lparr>tj_file := Some h', tj_finished_size := tj_finished_size job + word_of_nat (length tmp),
               tj_transfered := tj_transfered job + word_of_nat received\<rparr>,
           d'))"

text \<open>\<open>TransferJob::write\<close>; without a file \<open>unwrap\<close> panics.\<close>

definition job_write :: "'e decompressor \<Rightarrow> transfer_job \<Rightarrow> disk \<Rightarrow> file_transfer_block \<Rightarrow>
    ((anyhow_error + unit) \<times> transfer_job \<times> disk) outcome" where
  "job_write zd job d block =
     (if blk_id block \<noteq> tj_id job then Ret (Inl (Bail ''Wrong id''), job, d)
      else if length (tj_files job) \<le> as_usize (blk_file_num block) then
        Ret (Inl (Bail ''Wrong file number''), job, d)
      else
        case open_for_write job d (blk_file_num block) of
          (Inl e, job1, d1) \<Rightarrow> Ret (Inl e, job1, d1)
        | (Inr _, job1, d1) \<Rightarrow>
            (case tj_file job1 of
               None \<Rightarrow> Panic
             | Some h \<Rightarrow>
                 Ret (write_data job1 d1 h
                   (if compressed block then decompress zd False (blk_data block) else blk_data block)
                   (length (blk_data block)))))"

section \<open>Reading\<close>

definition get_ext :: "string \<Rightarrow> string" where
  "get_ext nam = (if CHR ''.'' \<in> set nam then last (split_on CHR ''.'' nam) else [])"

definition is_compressed_file :: "string \<Rightarrow> bool" where
  "is_compressed_file nam =
     (let ext = get_ext nam in
      ext = ''xz'' \<or> ext = ''gz'' \<or> ext = ''zip'' \<or> ext = ''7z'' \<or> ext = ''rar'' \<or> ext = ''bz2'' \<or> ext = ''tgz''
        \<or> ext = ''png'' \<or> ext = ''jpg'')"

definition BUF_SIZE :: nat where "BUF_SIZE = 128 * 1024"

definition COMPRESS_LEVEL :: int where "COMPRESS_LEVEL = 3"

text \<open>The loop that fills the buffer: until it is full or a read returns nothing.\<close>

function fill :: "nat \<Rightarrow> bytes \<Rightarrow> handle \<Rightarrow> disk \<Rightarrow> (io_error + bytes) \<times> handle \<times> disk" where
  "fill size_b buf h d =
     (case fs_read d h (size_b - length buf) of
        (Inl e, h', d') \<Rightarrow> (Inl e, h', d')
      | (Inr got, h', d') \<Rightarrow>
          if got = [] \<or> length (buf @ got) = size_b then (Inr (buf @ got), h', d')
          else fill size_b (buf @ got) h' d')"
  by pat_completeness auto

termination
proof (relation "measure (\<lambda>(size_b, buf, h, d). size_b - length buf)")
  fix size_b buf h d x y and got :: bytes and h' d'
  assume "(x, y) = fs_read d h (size_b - length buf)" "x = Inr got" "(h', d') = y"
    and go_on: "\<not> (got = [] \<or> length (buf @ got) = size_b)"
  then have "fs_read d h (size_b - length buf) = (Inr got, h', d')" by simp
  then have "length got \<le> size_b - length buf" by (rule fs_read_length)
  then show "((size_b, buf @ got, h', d'), size_b, buf, h, d) \<in> measure (\<lambda>(size_b, buf, h, d). size_b - length buf)"
    using go_on by (cases got) auto
qed simp

declare fill.simps [simp del]

definition read_block :: "'e compressor \<Rightarrow> string \<Rightarrow> bytes \<Rightarrow> bytes \<times> bool" where
  "read_block zc nam buf =
     (if is_compressed_file nam then (buf, False)
      else let tmp = compress zc False buf COMPRESS_LEVEL in
        if length tmp < length buf then (tmp, True) else (buf, False))"

definition read_open :: "transfer_job \<Rightarrow> disk \<Rightarrow> (io_error + handle) \<times> disk" where
  "read_open job d =
     (case tj_file job of
        Some h \<Rightarrow> (Inr h, d)
      | None \<Rightarrow> fs_open d (final_path job (as_usize (tj_file_num job))))"

definition job_read :: "'e compressor \<Rightarrow> transfer_job \<Rightarrow> disk \<Rightarrow>
    (anyhow_error + file_transfer_block option) \<times> transfer_job \<times> disk" where
  "job_read zc job d =
     (let k = as_usize (tj_file_num job) in
      if length (tj_files job) \<le> k then (Inr None, job\<lparr>tj_file := None\<rparr>, d)
      else
        case read_open job d of
          (Inl e, d1) \<Rightarrow> (Inl (Io e), job\<lparr>tj_file_num := tj_file_num job + 1\<rparr>, d1)
        | (Inr h, d1) \<Rightarrow>
            (case fill BUF_SIZE [] h d1 of
               (Inl e, h', d2) \<Rightarrow>
                 (Inl (Io e), job\<lparr>tj_file_num := tj_file_num job + 1, tj_file := None\<rparr>, d2)
             | (Inr buf, h', d2) \<Rightarrow>
                 (if buf = [] then
                    (Inr (Some \<lparr>blk_id = tj_id job, blk_file_num = word_of_nat k, blk_data = [], compressed = False\<rparr>),
                     job\<lparr>tj_file_num := tj_file_num job + 1, tj_file := None\<rparr>, d2)
                  else
                    case read_block zc (name (tj_files job ! k)) buf of
                      (bytes_out, packed) \<Rightarrow>
                        (Inr (Some \<lparr>blk_id = tj_id job, blk_file_num = word_of_nat k, blk_data = bytes_out, compressed = packed\<rparr>),
                         job\<lparr>tj_file := Some h',
                             tj_finished_size := tj_finished_size job + word_of_nat (length buf),
                             tj_transfered := tj_transfered job + word_of_nat (length bytes_out)\<rparr>,
                         d2))))"

section \<open>The jobs of a connection\<close>

definition remove_job :: "i32 \<Rightarrow> transfer_job list \<Rightarrow> transfer_job list" where
  "remove_job i jobs = filter (\<lambda>x. job_id x \<noteq> i) jobs"

text \<open>The index of the job a mutable reference is returned to.\<close>

fun get_job :: "i32 \<Rightarrow> transfer_job list \<Rightarrow> nat option" where
  "get_job i [] = None"
| "get_job i (x # xs) =
     (if job_id x = i then Some 0 else map_option Suc (get_job i xs))"

record ('e, 's) serve_env =
  zcomp :: "'e compressor"
  show_error :: "anyhow_error \<Rightarrow> string"
  send_msg :: "'s \<Rightarrow> message \<Rightarrow> (anyhow_error + unit) \<times> 's"

text \<open>What is sent for the outcome of a read, after the job has moved on.\<close>

definition read_reply :: "(anyhow_error \<Rightarrow> string) \<Rightarrow> anyhow_error + file_transfer_block option \<Rightarrow> transfer_job \<Rightarrow> message" where
  "read_reply shw r job =
     (case r of
        Inl err \<Rightarrow> new_error (job_id job) (shw err) (job_file_num job)
      | Inr (Some block) \<Rightarrow> new_block block
      | Inr None \<Rightarrow> new_done (job_id job) (job_file_num job))"

fun serve_jobs :: "('e, 's) serve_env \<Rightarrow> transfer_job list \<Rightarrow> 's \<Rightarrow> disk \<Rightarrow>
    (anyhow_error + i32 list) \<times> transfer_job list \<times> 's \<times> disk" where
  "serve_jobs env [] s d = (Inr [], [], s, d)"
| "serve_jobs env (job # jobs) s d =
     (case job_read (zcomp env) job d of
        (r, job', d1) \<Rightarrow>
          (case send_msg env s (read_reply (show_error env) r job') of
             (Inl e, s1) \<Rightarrow> (Inl e, job' # jobs, s1, d1)
           | (Inr _, s1) \<Rightarrow>
               (case serve_jobs env jobs s1 d1 of
                  (Inl e, jobs', s2, d2) \<Rightarrow> (Inl e, job' # jobs', s2, d2)
                | (Inr finished, jobs', s2, d2) \<Rightarrow>
                    (Inr (if r = Inr None then job_id job' # finished else finished), job' # jobs', s2, d2))))"

definition handle_read_jobs :: "('e, 's) serve_env \<Rightarrow> transfer_job list \<Rightarrow> 's \<Rightarrow> disk \<Rightarrow>
    (anyhow_error + unit) \<times> transfer_job list \<times> 's \<times> disk" where
  "handle_read_jobs env jobs s d =
     (case serve_jobs env jobs s d of
        (Inl e, jobs', s', d') \<Rightarrow> (Inl e, jobs', s', d')
      | (Inr finished, jobs', s', d') \<Rightarrow> (Inr (), fold remove_job finished jobs', s', d'))"

section \<open>Single files and directories\<close>

definition remove_file :: "string \<Rightarrow> disk \<Rightarrow> (anyhow_error + unit) \<times> disk" where
  "remove_file file d =
     (case fs_remove_file d file of (Inl e, d') \<Rightarrow> (Inl (Io e), d') | (Inr _, d') \<Rightarrow> (Inr (), d'))"

definition create_dir :: "string \<Rightarrow> disk \<Rightarrow> (anyhow_error + unit) \<times> disk" where
  "create_dir dir d =
     (case create_dir_all d (place d dir) of (Inl e, d') \<Rightarrow> (Inl (Io e), d') | (Inr _, d') \<Rightarrow> (Inr (), d'))"

end
