(* ===== verification/File_Transfer_Props.thy ===== *)
theory File_Transfer_Props imports File_Transfer begin

text \<open>
  What file transfer guarantees: how a file is cut into blocks, how blocks become a file again, the
  whole copy of a list of files from one disk to another, and what happens on errors.
\<close>

section \<open>Disks on which nothing fails\<close>

text \<open>Reads may be short; nothing else is in the script.\<close>

definition benign :: "disk \<Rightarrow> bool" where
  "benign d \<longleftrightarrow> (\<forall>f \<in> set (faults d). case f of Refuse _ _ \<Rightarrow> False | _ \<Rightarrow> True)"

definition tick :: "disk \<Rightarrow> disk" where
  "tick d = d\<lparr>faults := tl (faults d)\<rparr>"

lemma tick_frame [simp]:
  "names (tick d) = names d" "inodes (tick d) = inodes d" "fresh (tick d) = fresh d" "cwd (tick d) = cwd d"
  "clock (tick d) = clock d" "content (tick d) = content d" "place (tick d) = place d"
  by (auto simp: tick_def content_def place_def fun_eq_iff)

lemma benign_tick [simp]: "benign d \<Longrightarrow> benign (tick d)"
  by (auto simp: benign_def tick_def dest: list.set_sel(2) [rotated]) (metis list.sel(2) list.set_sel(2))

lemma place_names [simp]: "place (d\<lparr>names := m\<rparr>) = place d" "place (d\<lparr>inodes := ino\<rparr>) = place d"
  "place (d\<lparr>fresh := n\<rparr>) = place d" "place (put_bytes d i off bs) = place d"
  by (auto simp: place_def put_bytes_def fun_eq_iff)

lemma benign_frame [simp]: "benign (d\<lparr>names := m\<rparr>) = benign d" "benign (d\<lparr>inodes := ino\<rparr>) = benign d"
  "benign (d\<lparr>fresh := n\<rparr>) = benign d" "benign (put_bytes d i off bs) = benign d"
  by (auto simp: benign_def put_bytes_def)

lemma content_frame [simp]: "content (d\<lparr>names := m\<rparr>) = content d" "content (d\<lparr>fresh := n\<rparr>) = content d"
  "content (d\<lparr>inodes := (inodes d)(i := (bs, t))\<rparr>) = (content d)(i := bs)"
  "content (put_bytes d i off bs) = (content d)(i := splice off bs (content d i))"
  by (auto simp: content_def put_bytes_def fun_eq_iff)

lemma put_bytes_frame [simp]: "names (put_bytes d i off bs) = names d" "fresh (put_bytes d i off bs) = fresh d"
  "cwd (put_bytes d i off bs) = cwd d"
  by (simp_all add: put_bytes_def)

lemma take_fault_benign: "benign d \<Longrightarrow> \<exists>f. take_fault d = (f, tick d) \<and> (\<forall>k e. f \<noteq> Refuse k e)"
  by (cases "faults d") (auto simp: take_fault_def tick_def benign_def split: fault.splits)

lemma attempt_io_benign [simp]:
  assumes "benign d"
  shows "attempt_io d f = f (tick d)"
proof -
  obtain t where "take_fault d = (t, tick d)" "\<forall>k e. t \<noteq> Refuse k e" using take_fault_benign [OF assms] by blast
  then show ?thesis by (cases t) (simp_all add: attempt_io_def)
qed

lemma fs_write_all_benign [simp]:
  assumes "benign d"
  shows "fs_write_all d (FileHandle i off) bs =
    (Inr (), FileHandle i (off + length bs), put_bytes (tick d) i off bs)"
proof -
  obtain t where "take_fault d = (t, tick d)" "\<forall>k e. t \<noteq> Refuse k e" using take_fault_benign [OF assms] by blast
  then show ?thesis by (cases t) (simp_all add: fs_write_all_def)
qed

lemma fs_read_benign:
  assumes "benign d" "0 < n"
  obtains m where "0 < m" "m \<le> n" "fs_read d (FileHandle i off) n =
    (Inr (take m (drop off (content d i))), FileHandle i (off + length (take m (drop off (content d i)))), tick d)"
proof -
  obtain t where t: "take_fault d = (t, tick d)" "\<forall>k e. t \<noteq> Refuse k e" using take_fault_benign [OF assms(1)] by blast
  show thesis
  proof (cases t)
    case (Short k)
    show thesis by (rule that [of "min n (k + 1)"]) (use t Short assms(2) in \<open>simp_all add: fs_read_def Let_def\<close>)
  qed (use t assms(2) that [of n] in \<open>simp_all add: fs_read_def Let_def\<close>)
qed

text \<open>Two disks that differ in the rest of the script only.\<close>

definition same_disk :: "disk \<Rightarrow> disk \<Rightarrow> bool" where
  "same_disk d d' \<longleftrightarrow> d' = d\<lparr>faults := faults d'\<rparr> \<and> (benign d \<longrightarrow> benign d')"

lemma same_disk_refl [simp]: "same_disk d d"
  by (simp add: same_disk_def)

lemma same_disk_tick [simp]: "same_disk d (tick d)"
  by (simp add: same_disk_def) 

lemma same_disk_trans: "same_disk d d' \<Longrightarrow> same_disk d' d'' \<Longrightarrow> same_disk d d''"
  by (cases d; cases d'; cases d'') (simp add: same_disk_def)

lemma same_diskD:
  assumes "same_disk d d'"
  shows "names d' = names d" "content d' = content d" "place d' = place d" "benign d \<Longrightarrow> benign d'"
  using assms by (auto simp: same_disk_def content_def place_def fun_eq_iff) (metis (no_types) disk.select_convs disk.surjective disk.update_convs(6))+

section \<open>Filling the buffer\<close>

lemma drop_take_rest: "m \<le> n \<Longrightarrow> take m xs @ take (n - m) (drop m xs) = take n xs"
  by (metis le_add_diff_inverse take_add)

text \<open>However short the reads are, the buffer ends up with the next bytes of the file.\<close>

lemma fill_benign:
  assumes "benign d" "length buf < size_b"
  shows "\<exists>d'. fill size_b buf (FileHandle i off) d =
      (Inr (buf @ take (size_b - length buf) (drop off (content d i))),
       FileHandle i (off + length (take (size_b - length buf) (drop off (content d i)))), d') \<and> same_disk d d'"
  using assms
proof (induction "size_b - length buf" arbitrary: buf off d rule: less_induct)
  case less
  let ?n = "size_b - length buf" and ?rest = "drop off (content d i)"
  obtain m where m: "0 < m" "m \<le> ?n" and rd: "fs_read d (FileHandle i off) ?n =
      (Inr (take m ?rest), FileHandle i (off + length (take m ?rest)), tick d)"
    using fs_read_benign [OF less(2), of ?n i off] less(3) by auto
  show ?case
  proof (cases "take m ?rest = [] \<or> length (buf @ take m ?rest) = size_b")
    case True
    then have "take m ?rest = take ?n ?rest"
      using m less(3) by auto
    then show ?thesis using True rd by (subst fill.simps) auto
  next
    case False
    let ?got = "take m ?rest"
    have lt: "size_b - length (buf @ ?got) < ?n" "length (buf @ ?got) < size_b"
      using False m less(3) by auto
    obtain d' where d': "fill size_b (buf @ ?got) (FileHandle i (off + length ?got)) (tick d) =
        (Inr ((buf @ ?got) @ take (size_b - length (buf @ ?got)) (drop (off + length ?got) (content (tick d) i))),
         FileHandle i (off + length ?got + length (take (size_b - length (buf @ ?got)) (drop (off + length ?got) (content (tick d) i)))), d')"
      "same_disk (tick d) d'"
      using less(1) [OF lt(1) _ lt(2)] less(2) by (meson benign_tick)
    have got: "?got @ take (size_b - length (buf @ ?got)) (drop (off + length ?got) (content d i)) = take ?n ?rest"
    proof (cases "length ?rest \<le> m")
      case True
      then show ?thesis using m by simp
    next
      case False
      then have len: "length ?got = m" by simp
      have "size_b - length (buf @ ?got) = ?n - m" by (simp only: length_append len diff_diff_add)
      moreover have "drop (off + length ?got) (content d i) = drop m ?rest" by (simp only: len drop_drop add.commute)
      ultimately show ?thesis using drop_take_rest [OF m(2), of ?rest] by simp
    qed
    have "fill size_b buf (FileHandle i off) d = fill size_b (buf @ ?got) (FileHandle i (off + length ?got)) (tick d)"
      using False rd by (subst fill.simps) simp
    also have "\<dots> = (Inr (buf @ take ?n ?rest), FileHandle i (off + length (take ?n ?rest)), d')"
      unfolding d' got [symmetric] by simp
    finally show ?thesis using same_disk_trans [OF same_disk_tick d'(2)] by blast
  qed
qed

section \<open>Reading a file\<close>

text \<open>A job is reading file \<open>k\<close>, whose content is \<open>c\<close>, and has read \<open>off\<close> bytes of it.\<close>

definition reading :: "transfer_job \<Rightarrow> disk \<Rightarrow> nat \<Rightarrow> bytes \<Rightarrow> nat \<Rightarrow> bool" where
  "reading job d k c off \<longleftrightarrow>
     as_usize (tj_file_num job) = k \<and> k < length (tj_files job) \<and> benign d \<and>
     (case tj_file job of
        Some h \<Rightarrow> \<exists>i. h = FileHandle i off \<and> content d i = c
      | None \<Rightarrow> off = 0 \<and> (\<exists>i. names d (place d (final_path job k)) = Some (FileNode i) \<and> content d i = c))"

text \<open>The data a block carries, for its receiver.\<close>

definition payload :: "'e decompressor \<Rightarrow> file_transfer_block \<Rightarrow> bytes" where
  "payload zd block = (if compressed block then decompress zd False (blk_data block) else blk_data block)"

text \<open>The job at its next file, and at the same file further on.\<close>

definition same_job :: "transfer_job \<Rightarrow> transfer_job \<Rightarrow> bool" where
  "same_job job job' \<longleftrightarrow> tj_id job' = tj_id job \<and> tj_path job' = tj_path job \<and> tj_files job' = tj_files job"

lemma same_job_refl [simp]: "same_job job job"
  by (simp add: same_job_def)

lemma same_job_trans: "same_job a b \<Longrightarrow> same_job b c \<Longrightarrow> same_job a c"
  by (simp add: same_job_def)

lemma same_job_paths: "same_job job job' \<Longrightarrow> final_path job' = final_path job \<and> download_path job' = download_path job"
  by (auto simp: same_job_def final_path_def download_path_def job_join_def fun_eq_iff)

lemma read_open_reading:
  assumes "reading job d k c off"
  obtains i d1 where "read_open job d = (Inr (FileHandle i off), d1)" "same_disk d d1" "content d i = c" "benign d1"
proof (cases "tj_file job")
  case None
  then obtain i where "off = 0" "names d (place d (final_path job k)) = Some (FileNode i)" "content d i = c"
    "as_usize (tj_file_num job) = k" "benign d"
    using assms by (auto simp: reading_def)
  then show ?thesis using that [of i "tick d"] None by (simp add: read_open_def fs_open_def)
next
  case (Some h)
  then show ?thesis using that [of _ d] assms by (auto simp: read_open_def reading_def)
qed

text \<open>The laws of zstd with a compressor that does not fail.\<close>

definition good_zstd :: "'e compressor \<Rightarrow> 'e decompressor \<Rightarrow> bool" where
  "good_zstd zc zd \<longleftrightarrow> zstd_law zc zd \<and> (\<forall>d l. \<exists>r. zc d l = Inr r)"

lemma decompress_compress:
  assumes "good_zstd zc zd" "length data \<le> 1048576"
  shows "decompress zd False (compress zc False data level) = data"
proof -
  obtain r where r: "zc data level = Inr r" using assms(1) by (auto simp: good_zstd_def)
  have "zd r (unat (decompress_cap r)) = Inr data"
    using assms decompress_cap_bounds(1) [of r] r by (auto simp: good_zstd_def intro: zstd_lawD(1))
  then show ?thesis using r by (simp add: compress_def decompress_def)
qed

lemma read_block_payload:
  assumes "good_zstd zc zd" "length buf \<le> BUF_SIZE" "read_block zc nam buf = (out, packed)"
  shows "(if packed then decompress zd False out else out) = buf"
  using assms decompress_compress [OF assms(1), of buf]
  by (auto simp: read_block_def Let_def BUF_SIZE_def split: if_splits)

lemma read_block_length: "read_block zc nam buf = (out, packed) \<Longrightarrow> length out \<le> length buf"
  by (auto simp: read_block_def Let_def split: if_splits)

lemma as_usize_of_nat [simp]:
  assumes "k < 2 ^ 31"
  shows "as_usize (word_of_nat k) = k"
proof -
  have "sint (word_of_nat k :: i32) = int k"
    using assms by (simp add: signed_of_nat signed_take_bit_int_eq_self)
  then have "(scast (word_of_nat k :: i32) :: usize) = word_of_nat k" by (simp add: scast_eq)
  then show ?thesis using assms by (simp add: as_usize_def unat_of_nat_small)
qed

text \<open>A negative number is beyond every list.\<close>

lemma as_usize_sint: "as_usize n = (if 0 \<le> sint n then nat (sint n) else nat (2 ^ 64 + sint n))"
proof -
  have b: "- (2 ^ 31) \<le> sint n" "sint n < 2 ^ 31"
    using sint_greater_eq [of n] sint_less [of n] by simp_all
  have u: "uint (scast n :: usize) = sint n mod 2 ^ 64"
    by (subst scast_eq, subst unsigned_of_int) (simp add: take_bit_eq_mod)
  have "sint n mod 2 ^ 64 = (if 0 \<le> sint n then sint n else 2 ^ 64 + sint n)"
  proof (cases "0 \<le> sint n")
    case True
    then show ?thesis using b by simp
  next
    case False
    have "sint n mod 2 ^ 64 = (sint n + 2 ^ 64) mod 2 ^ 64" by simp
    also have "\<dots> = sint n + 2 ^ 64" using False b by (intro mod_pos_pos_trivial) simp_all
    finally show ?thesis using False by simp
  qed
  then show ?thesis unfolding as_usize_def unat_eq_nat_uint u by (simp split: if_splits)
qed

text \<open>Reading on: the next block carries the next 128 KiB, or what is left.\<close>

lemma read_more:
  assumes z: "good_zstd zc zd" and r: "reading job d k c off" and off: "off < length c"
  shows "\<exists>blk job' d'. job_read zc job d = (Inr (Some blk), job', d') \<and> payload zd blk = take BUF_SIZE (drop off c) \<and>
      blk_id blk = tj_id job \<and> blk_file_num blk = word_of_nat k \<and> length (blk_data blk) \<le> BUF_SIZE \<and>
      reading job' d' k c (off + length (take BUF_SIZE (drop off c))) \<and> tj_file_num job' = tj_file_num job \<and> same_job job job' \<and> same_disk d d' \<and>
      tj_finished_size job' = tj_finished_size job + word_of_nat (length (take BUF_SIZE (drop off c)))"
proof -
  let ?buf = "take BUF_SIZE (drop off c)"
  obtain i d1 where op: "read_open job d = (Inr (FileHandle i off), d1)" "same_disk d d1" "content d i = c" "benign d1"
    using read_open_reading [OF r] by blast
  have c1: "content d1 i = c" using op same_diskD(2) by metis
  obtain d2 where fill: "fill BUF_SIZE [] (FileHandle i off) d1 = (Inr ?buf, FileHandle i (off + length ?buf), d2)" "same_disk d1 d2"
    using fill_benign [OF op(4), of "[]" BUF_SIZE i off] c1 by (auto simp: BUF_SIZE_def)
  obtain out packed where blk: "read_block zc (name (tj_files job ! k)) ?buf = (out, packed)" by fastforce
  have wire: "length out \<le> BUF_SIZE" using read_block_length [OF blk] by simp
  have k: "as_usize (tj_file_num job) = k" "k < length (tj_files job)" using r by (auto simp: reading_def)
  have ne: "?buf \<noteq> []" using off by (simp add: BUF_SIZE_def)
  have same: "same_disk d d2" using op(2) fill(2) same_disk_trans by blast
  show ?thesis
    using k ne op(1) fill(1) blk read_block_payload [OF z _ blk] wire same r
      same_diskD(4) [OF same] c1 same_diskD(2) [OF fill(2)]
    by (cases packed) (simp_all add: job_read_def payload_def reading_def same_job_def)
qed

lemma read_end:
  assumes "reading job d k c (length c)"
  shows "\<exists>d'. job_read zc job d =
      (Inr (Some \<lparr>blk_id = tj_id job, blk_file_num = word_of_nat k, blk_data = [], compressed = False\<rparr>),
       job\<lparr>tj_file_num := tj_file_num job + 1, tj_file := None\<rparr>, d') \<and> same_disk d d'"
proof -
  obtain i d1 where op: "read_open job d = (Inr (FileHandle i (length c)), d1)" "same_disk d d1" "content d i = c" "benign d1"
    using read_open_reading [OF assms] by blast
  have c1: "content d1 i = c" using op same_diskD(2) by metis
  obtain d2 where fill: "fill BUF_SIZE [] (FileHandle i (length c)) d1 = (Inr [], FileHandle i (length c), d2)" "same_disk d1 d2"
    using fill_benign [OF op(4), of "[]" BUF_SIZE i "length c"] c1 by (auto simp: BUF_SIZE_def)
  have k: "as_usize (tj_file_num job) = k" "k < length (tj_files job)" using assms by (auto simp: reading_def)
  show ?thesis using k op(1) fill(1) same_disk_trans [OF op(2) fill(2)] by (simp add: job_read_def)
qed

section \<open>A file as blocks\<close>

fun read_times :: "nat \<Rightarrow> 'e compressor \<Rightarrow> transfer_job \<Rightarrow> disk \<Rightarrow>
    (anyhow_error + file_transfer_block option) list \<times> transfer_job \<times> disk" where
  "read_times 0 zc job d = ([], job, d)"
| "read_times (Suc n) zc job d =
     (case job_read zc job d of
        (r, job1, d1) \<Rightarrow> (case read_times n zc job1 d1 of (rs, job2, d2) \<Rightarrow> (r # rs, job2, d2)))"

text \<open>How many blocks a file of a given length takes: the full ones, the rest, and the empty one at its end.\<close>

definition blocks_of :: "nat \<Rightarrow> nat" where
  "blocks_of n = (n + (BUF_SIZE - 1)) div BUF_SIZE + 1"

lemma BUF_SIZE_pos [simp]: "0 < BUF_SIZE"
  by (simp add: BUF_SIZE_def)

lemma blocks_of_0 [simp]: "blocks_of 0 = 1"
  by (simp add: blocks_of_def BUF_SIZE_def)

lemma blocks_of_more: "0 < n \<Longrightarrow> blocks_of n = Suc (blocks_of (n - min BUF_SIZE n))"
proof -
  assume n: "0 < n"
  show ?thesis
  proof (cases "BUF_SIZE \<le> n")
    case True
    then have "(n + (BUF_SIZE - 1)) div BUF_SIZE = Suc ((n - BUF_SIZE + (BUF_SIZE - 1)) div BUF_SIZE)"
      using le_div_geq [of BUF_SIZE "n + (BUF_SIZE - 1)"] by simp
    then show ?thesis using True by (simp add: blocks_of_def)
  next
    case False
    then have "(n + (BUF_SIZE - 1)) div BUF_SIZE = 1"
      using n by (intro div_nat_eqI) simp_all
    then show ?thesis using False by (simp add: blocks_of_def)
  qed
qed

lemma take_append_rest: "take n xs @ drop (length (take n xs)) xs = xs"
  by (cases "n \<le> length xs") simp_all

lemma read_times_blocks:
  assumes "good_zstd zc zd" "reading job d k c off" "off \<le> length c"
  shows "\<exists>blks job' d'. read_times (blocks_of (length c - off)) zc job d = (map (Inr \<circ> Some) blks, job', d') \<and>
    concat (map (payload zd) blks) = drop off c \<and>
    (\<forall>b \<in> set blks. blk_id b = tj_id job \<and> blk_file_num b = word_of_nat k \<and>
       length (blk_data b) \<le> BUF_SIZE \<and> length (payload zd b) \<le> BUF_SIZE) \<and>
    payload zd (last blks) = [] \<and> tj_file job' = None \<and> tj_file_num job' = tj_file_num job + 1 \<and> same_disk d d' \<and>
    same_job job job' \<and> tj_finished_size job' = tj_finished_size job + word_of_nat (length c - off)"
  using assms(2,3)
proof (induction "length c - off" arbitrary: job d off rule: less_induct)
  case less
  show ?case
  proof (cases "off = length c")
    case True
    then obtain d' where "job_read zc job d =
        (Inr (Some \<lparr>blk_id = tj_id job, blk_file_num = word_of_nat k, blk_data = [], compressed = False\<rparr>),
         job\<lparr>tj_file_num := tj_file_num job + 1, tj_file := None\<rparr>, d')" "same_disk d d'"
      using read_end less(2) by blast
    then show ?thesis using True
      by (intro exI [of _ "[\<lparr>blk_id = tj_id job, blk_file_num = word_of_nat k, blk_data = [], compressed = False\<rparr>]"])
        (simp add: payload_def One_nat_def same_job_def)
  next
    case False
    let ?chunk = "take BUF_SIZE (drop off c)"
    have off: "off < length c" using False less(3) by simp
    obtain blk job1 d1 where one: "job_read zc job d = (Inr (Some blk), job1, d1)" "payload zd blk = ?chunk"
        "blk_id blk = tj_id job" "blk_file_num blk = word_of_nat k" "length (blk_data blk) \<le> BUF_SIZE" "reading job1 d1 k c (off + length ?chunk)"
        "same_job job job1" "same_disk d d1" and num: "tj_file_num job1 = tj_file_num job"
        "tj_finished_size job1 = tj_finished_size job + word_of_nat (length ?chunk)"
      using read_more [OF assms(1) less(2) off] by blast
    have "length c - (off + length ?chunk) < length c - off" "off + length ?chunk \<le> length c"
    proof -
      have "0 < length ?chunk" "length ?chunk \<le> length c - off" using off by simp_all
      then show "length c - (off + length ?chunk) < length c - off" "off + length ?chunk \<le> length c"
        using off by linarith+
    qed
    from less(1) [OF this(1) one(6) this(2)] obtain blks job' d' where rest:
      "read_times (blocks_of (length c - (off + length ?chunk))) zc job1 d1 = (map (Inr \<circ> Some) blks, job', d')"
      "concat (map (payload zd) blks) = drop (off + length ?chunk) c"
      "\<forall>b \<in> set blks. blk_id b = tj_id job1 \<and> blk_file_num b = word_of_nat k \<and>
         length (blk_data b) \<le> BUF_SIZE \<and> length (payload zd b) \<le> BUF_SIZE"
      "payload zd (last blks) = []" "tj_file job' = None" "tj_file_num job' = tj_file_num job1 + 1" "same_disk d1 d'"
      "same_job job1 job'" "tj_finished_size job' = tj_finished_size job1 + word_of_nat (length c - (off + length ?chunk))"
      by blast
    have "length ?chunk + (length c - (off + length ?chunk)) = length c - off" using off by simp
    then have counted: "tj_finished_size job' = tj_finished_size job + word_of_nat (length c - off)"
      using rest(9) num(2) by (metis (no_types) add.assoc of_nat_add)
    have steps: "blocks_of (length c - off) = Suc (blocks_of (length c - (off + length ?chunk)))"
      using off blocks_of_more [of "length c - off"] by (simp add: min.commute)
    have "blks \<noteq> []" using rest(1) by (cases "blocks_of (length c - (off + length ?chunk))") (auto simp: blocks_of_def split: prod.splits)
    moreover have "?chunk @ drop (off + length ?chunk) c = drop off c"
      using take_append_rest [of BUF_SIZE "drop off c"] by (simp only: drop_drop add.commute)
    ultimately show ?thesis
      unfolding steps using one rest(1-7) num(1) counted same_disk_trans [OF one(8) rest(7)] same_job_trans [OF one(7) rest(8)]
      by (intro exI [of _ "blk # blks"] exI [of _ job'] exI [of _ d']) (simp add: same_job_def)
  qed
qed

text \<open>C20: Reading a file of \<open>n\<close> bytes takes exactly \<open>\<lceil>n / 128 KiB\<rceil> + 1\<close> calls, however short the system's reads are: each
  gives a block of this job and file of at most 128 KiB, compressed or not, the blocks carry the file's content in
  order, the last one is empty and the job has moved on to the next file with this one closed.\<close>

theorem file_as_blocks:
  assumes "good_zstd zc zd" "reading job d k c 0"
  shows "\<exists>blks job' d'. read_times ((length c + 131071) div 131072 + 1) zc job d = (map (Inr \<circ> Some) blks, job', d') \<and>
    concat (map (payload zd) blks) = c \<and>
    (\<forall>b \<in> set blks. blk_id b = tj_id job \<and> blk_file_num b = word_of_nat k \<and>
       length (blk_data b) \<le> 131072 \<and> length (payload zd b) \<le> 131072) \<and>
    payload zd (last blks) = [] \<and> tj_file job' = None \<and> tj_file_num job' = tj_file_num job + 1"
  using read_times_blocks [OF assms] by (simp add: blocks_of_def BUF_SIZE_def) blast

definition demo_entry :: "string \<Rightarrow> file_entry" where
  "demo_entry nam = \<lparr>entry_type = Inr FtFile, name = nam, is_hidden = False, fe_size = 3, modified_time = 9\<rparr>"

definition demo_job :: "string \<Rightarrow> transfer_job" where
  "demo_job path = transfer_job_default\<lparr>tj_id := 5, tj_path := path, tj_files := [demo_entry ''a'', demo_entry ''b'']\<rparr>"

definition demo_disk :: disk where
  "demo_disk =
     \<lparr>names = [[] \<mapsto> DirNode, [''s''] \<mapsto> DirNode, [''s'', ''a''] \<mapsto> FileNode 0, [''s'', ''b''] \<mapsto> FileNode 1],
      inodes = (\<lambda>i. if i = 0 then ([1, 2, 3], 9) else if i = 1 then ([4, 5, 6], 9) else ([], 0)),
      fresh = 2, cwd = [], clock = 100, faults = [Short 0]\<rparr>"

lemma good_store: "good_zstd store_c store_d"
  by (simp add: good_zstd_def store_law store_c_def)

lemma demo_paths [simp]:
  "resolve [] ''/s/a'' = [''s'', ''a'']" "resolve [] ''/s/b'' = [''s'', ''b'']"
  by (simp_all add: resolve_def components_def walk_def is_absolute_def)

lemma as_usize_0 [simp]: "as_usize 0 = 0"
  by (simp add: as_usize_def)

lemma demo_reading: "reading (demo_job ''/s'') demo_disk 0 [1, 2, 3] 0"
  by (simp add: reading_def demo_job_def demo_disk_def demo_entry_def transfer_job_default_def benign_def
      final_path_def job_join_def path_join_def is_absolute_def place_def content_def)

theorem file_as_blocks_witness:
  "\<exists>blks job' d'. read_times 2 store_c (demo_job ''/s'') demo_disk = (map (Inr \<circ> Some) blks, job', d') \<and>
    concat (map (payload store_d) blks) = [1, 2, 3]"
proof -
  have two: "(length [1, 2, 3 :: u8] + 131071) div 131072 + 1 = 2" by simp
  show ?thesis using file_as_blocks [OF good_store demo_reading, unfolded two] by blast
qed

section \<open>Writing a file\<close>

text \<open>A job is writing file \<open>k\<close> under its temporary name, and has written \<open>done\<close>.\<close>

definition writing :: "transfer_job \<Rightarrow> disk \<Rightarrow> nat \<Rightarrow> bytes \<Rightarrow> bool" where
  "writing job d k written \<longleftrightarrow>
     as_usize (tj_file_num job) = k \<and> k < length (tj_files job) \<and> benign d \<and>
     (\<exists>j. tj_file job = Some (FileHandle j (length written)) \<and> content d j = written \<and>
        names d (place d (download_path job k)) = Some (FileNode j))"

lemma write_open:
  assumes "k = as_usize num" "k = as_usize (tj_file_num job)" "tj_file job = Some h"
  shows "open_for_write job d num = (Inr (), job, d)"
  using assms by (simp add: open_for_write_def)

text \<open>What a write changes: the content of the open file.\<close>

definition only_content :: "disk \<Rightarrow> nat \<Rightarrow> disk \<Rightarrow> bool" where
  "only_content d j d' \<longleftrightarrow> names d' = names d \<and> fresh d' = fresh d \<and> cwd d' = cwd d \<and> (\<forall>i. i \<noteq> j \<longrightarrow> inodes d' i = inodes d i)"

lemma write_more:
  assumes w: "writing job d k written" and blk: "blk_id blk = tj_id job" "as_usize (blk_file_num blk) = k"
    and h: "tj_file job = Some (FileHandle j off)"
  shows "\<exists>job' d'. job_write zd job d blk = Ret (Inr (), job', d') \<and> writing job' d' k (written @ payload zd blk) \<and>
    same_job job job' \<and> tj_file_num job' = tj_file_num job \<and> tj_file job' = Some (FileHandle j (off + length (payload zd blk))) \<and>
    only_content d j d'"
proof -
  have k: "as_usize (tj_file_num job) = k" "k < length (tj_files job)" "benign d" "off = length written" "content d j = written"
    "names d (place d (download_path job k)) = Some (FileNode j)"
    using w h by (auto simp: writing_def)
  have paths: "download_path (job\<lparr>tj_file := f, tj_finished_size := a, tj_transfered := b\<rparr>) k = download_path job k" for f a b
    by (simp add: download_path_def final_path_def job_join_def)
  show ?thesis
    using k blk h
    by (simp add: job_write_def write_open [OF blk(2) [symmetric]] write_data_def payload_def writing_def paths
        same_job_def only_content_def)
      (simp add: put_bytes_def)
qed

section \<open>Where files are written\<close>

text \<open>The last component of a path is a plain name, as it is for every file a listing gives.\<close>

definition ends_plain :: "string \<Rightarrow> bool" where
  "ends_plain p \<longleftrightarrow> plain (last (split_on CHR ''/'' p))"

lemma split_on_suffix:
  "c \<notin> set t \<Longrightarrow> split_on c (s @ t) = butlast (split_on c s) @ [last (split_on c s) @ t]"
proof (induction s)
  case Nil
  then show ?case by (simp add: split_on_none)
next
  case (Cons x s)
  then show ?case by (cases "split_on c s") auto
qed

lemma components_ends_plain:
  assumes "ends_plain p"
  obtains cs c where "components p = cs @ [c]" "components (p @ ''.download'') = cs @ [c @ ''.download'']"
    "plain c" "plain (c @ ''.download'')"
proof -
  let ?parts = "split_on CHR ''/'' p"
  let ?c = "last ?parts"
  have c: "plain ?c" using assms by (simp add: ends_plain_def)
  have c': "plain (?c @ ''.download'')" using c by (auto simp: plain_def)
  have parts: "?parts = butlast ?parts @ [?c]" by simp
  have parts': "split_on CHR ''/'' (p @ ''.download'') = butlast ?parts @ [?c @ ''.download'']"
    by (rule split_on_suffix) simp
  show thesis using that [OF components_parts [OF parts c] components_parts [OF parts' c'] c c'] .
qed

lemma is_absolute_append: "ends_plain p \<Longrightarrow> is_absolute (p @ s) = is_absolute p"
  by (cases p) (auto simp: is_absolute_def ends_plain_def plain_def)

lemma place_download:
  assumes "ends_plain p"
  obtains q c where "place d p = q @ [c]" "place d (p @ ''.download'') = q @ [c @ ''.download'']"
    "\<And>d. names (parent_dirs d p) = names (snd (create_dir_all d (butlast (place d p))))" "plain c"
proof -
  from components_ends_plain [OF assms] obtain cs c where comps: "components p = cs @ [c]"
    "components (p @ ''.download'') = cs @ [c @ ''.download'']" "plain c" "plain (c @ ''.download'')"
    by metis
  let ?q = "walk (if is_absolute p then [] else cwd d) cs"
  have "path_parent p = Some (is_absolute p, cs)"
    using comps(1) by (cases cs) (simp_all add: path_parent_def)
  then have "names (parent_dirs d' p) = names (snd (create_dir_all d' (butlast (place d' p))))" for d'
    using comps by (simp add: parent_dirs_def place_def resolve_def walk_append)
  then show thesis
    using that [of ?q c] comps assms by (simp add: place_def resolve_def walk_append is_absolute_append)
qed

lemma parent_dirs_frame:
  assumes "benign d"
  shows "inodes (parent_dirs d p) = inodes d" "fresh (parent_dirs d p) = fresh d" "cwd (parent_dirs d p) = cwd d"
    "content (parent_dirs d p) = content d" "place (parent_dirs d p) = place d" "benign (parent_dirs d p)"
  using assms by (auto simp: parent_dirs_def create_dir_all_def split: option.split prod.split)

text \<open>
  The destination of a job: every file ends in a plain name; final and temporary places are all
  different, and none is a directory another one lies in.
\<close>

abbreviation fplace :: "transfer_job \<Rightarrow> disk \<Rightarrow> nat \<Rightarrow> string list" where
  "fplace job d k \<equiv> place d (final_path job k)"

abbreviation dplace :: "transfer_job \<Rightarrow> disk \<Rightarrow> nat \<Rightarrow> string list" where
  "dplace job d k \<equiv> place d (download_path job k)"

definition destination :: "transfer_job \<Rightarrow> disk \<Rightarrow> bool" where
  "destination job d \<longleftrightarrow>
     (\<forall>k < length (tj_files job). ends_plain (final_path job k) \<and>
        (\<forall>j < length (tj_files job). (fplace job d j = fplace job d k \<longrightarrow> j = k) \<and> fplace job d j \<noteq> dplace job d k \<and>
           (\<forall>l < length (fplace job d k). fplace job d j \<noteq> take l (fplace job d k) \<and> dplace job d j \<noteq> take l (fplace job d k))))"

text \<open>
  A disk ready for the files from \<open>m\<close> on: every inode has one name; no file to come has a temporary
  file yet; no final place is a directory and no place lies in a file; the directories of the files
  before \<open>m\<close> are there.
\<close>

definition ready :: "transfer_job \<Rightarrow> disk \<Rightarrow> nat \<Rightarrow> bool" where
  "ready job d m \<longleftrightarrow>
     benign d \<and> names d [] = Some DirNode \<and>
     (\<forall>q i. names d q = Some (FileNode i) \<longrightarrow> i < fresh d) \<and>
     (\<forall>q q' i. names d q = Some (FileNode i) \<longrightarrow> names d q' = Some (FileNode i) \<longrightarrow> q = q') \<and>
     (\<forall>k < length (tj_files job).
        (m \<le> k \<longrightarrow> names d (dplace job d k) = None) \<and>
        (k < m \<longrightarrow> names d (butlast (fplace job d k)) = Some DirNode) \<and>
        names d (fplace job d k) \<noteq> Some DirNode \<and>
        (\<forall>l < length (fplace job d k). \<forall>i. names d (take l (fplace job d k)) \<noteq> Some (FileNode i)))"

lemma destinationD:
  assumes "destination job d" "j < length (tj_files job)" "k < length (tj_files job)"
  shows "fplace job d j = fplace job d k \<Longrightarrow> j = k" "fplace job d j \<noteq> dplace job d k"
    "l < length (fplace job d k) \<Longrightarrow> fplace job d j \<noteq> take l (fplace job d k)"
    "l < length (fplace job d k) \<Longrightarrow> dplace job d j \<noteq> take l (fplace job d k)"
  using assms unfolding destination_def by blast+

lemma readyD:
  assumes "ready job d m"
  shows "benign d" "names d [] = Some DirNode" "names d q = Some (FileNode i) \<Longrightarrow> i < fresh d"
    "names d q = Some (FileNode i) \<Longrightarrow> names d q' = Some (FileNode i) \<Longrightarrow> q = q'"
    "k < length (tj_files job) \<Longrightarrow> m \<le> k \<Longrightarrow> names d (dplace job d k) = None"
    "k < length (tj_files job) \<Longrightarrow> k < m \<Longrightarrow> names d (butlast (fplace job d k)) = Some DirNode"
    "k < length (tj_files job) \<Longrightarrow> names d (fplace job d k) \<noteq> Some DirNode"
    "k < length (tj_files job) \<Longrightarrow> l < length (fplace job d k) \<Longrightarrow> names d (take l (fplace job d k)) \<noteq> Some (FileNode i)"
  using assms unfolding ready_def by blast+

lemma destination_places:
  assumes "destination job d" "k < length (tj_files job)"
  obtains q c where "fplace job d k = q @ [c]" "dplace job d k = q @ [c @ ''.download'']"
    "\<And>d. names (parent_dirs d (final_path job k)) = names (snd (create_dir_all d (butlast (fplace job d k))))"
  using assms place_download [of "final_path job k" d] unfolding destination_def download_path_def by metis

lemma dplace_inj:
  assumes "destination job d" "j < length (tj_files job)" "k < length (tj_files job)" "dplace job d j = dplace job d k"
  shows "j = k"
proof -
  obtain q c where "fplace job d j = q @ [c]" "dplace job d j = q @ [c @ ''.download'']"
    using destination_places [OF assms(1,2)] by metis
  moreover obtain q' c' where "fplace job d k = q' @ [c']" "dplace job d k = q' @ [c' @ ''.download'']"
    using destination_places [OF assms(1,3)] by metis
  ultimately have "fplace job d j = fplace job d k" using assms(4) by simp
  then show ?thesis using assms(1-3) by (auto simp: destination_def)
qed

text \<open>Creating the temporary file of the next file.\<close>

text \<open>The directories made on the way to a final name are new, and no file or name of the job is touched.\<close>

lemma make_parents:
  assumes dest: "destination job d" and rdy: "ready job d m" and m: "m < length (tj_files job)"
  defines "d2 \<equiv> parent_dirs d (final_path job m)"
  shows "\<And>x e. names d x = Some e \<Longrightarrow> names d2 x = Some e"
    "\<And>x i. names d2 x = Some (FileNode i) \<longleftrightarrow> names d x = Some (FileNode i)"
    "names d2 (butlast (fplace job d m)) = Some DirNode"
    "\<And>k. k < length (tj_files job) \<Longrightarrow> names d2 (fplace job d k) = names d (fplace job d k)"
    "\<And>k. k < length (tj_files job) \<Longrightarrow> names d2 (dplace job d k) = names d (dplace job d k)"
proof -
  obtain q c where P: "fplace job d m = q @ [c]"
    and nm: "\<And>d. names (parent_dirs d (final_path job m)) = names (snd (create_dir_all d (butlast (fplace job d m))))"
    using destination_places [OF dest m] by metis
  have ben: "benign d" using rdy by (simp add: ready_def)
  have made: "names d2 = snd (make_dirs (names d) [] q)"
    using nm [of d] P ben by (simp add: d2_def create_dir_all_def split: prod.split)
  show keeps: "names d2 x = Some e" if "names d x = Some e" for x e
    unfolding made using that by (rule make_dirs_keeps)
  show "names d2 x = Some (FileNode i) \<longleftrightarrow> names d x = Some (FileNode i)" for x i
    using keeps make_dirs_only_dirs unfolding made by metis
  have untouched: "names d2 x = names d x" if "\<And>l. l < length (fplace job d m) \<Longrightarrow> x \<noteq> take l (fplace job d m)" for x
  proof (rule ccontr)
    assume "names d2 x \<noteq> names d x"
    then obtain l where "l \<le> length q" "x = take l q"
      using make_dirs_prefix [of "names d" "[]" q x] unfolding made by auto
    then show False using that [of l] P by simp
  qed
  show "names d2 (fplace job d k) = names d (fplace job d k)" if "k < length (tj_files job)" for k
    by (rule untouched) (rule destinationD(3) [OF dest that m])
  show "names d2 (dplace job d k) = names d (dplace job d k)" if "k < length (tj_files job)" for k
    by (rule untouched) (rule destinationD(4) [OF dest that m])
  have "\<forall>l < length (q @ [c]). \<forall>i. names d (take l (q @ [c])) \<noteq> Some (FileNode i)"
    using rdy m unfolding ready_def P [symmetric] by blast
  then have "\<forall>l\<le>length q. \<forall>i. names d (take l q) \<noteq> Some (FileNode i)" by simp
  then have "names d2 q = Some DirNode"
    using make_dirs_dir [of q "names d" "[]"] rdy unfolding made by (simp add: ready_def)
  then show "names d2 (butlast (fplace job d m)) = Some DirNode" by (simp add: P)
qed

text \<open>With the temporary name of the next file added, the job is ready for the one after.\<close>

lemma create_ready:
  assumes dest: "destination job d" and rdy: "ready job d m" and m: "m < length (tj_files job)"
    and d': "names d' = (names (parent_dirs d (final_path job m)))(dplace job d m \<mapsto> FileNode (fresh d))"
      "fresh d' = fresh d + 1" "benign d'" "place d' = place d"
  shows "ready job d' (Suc m)"
  unfolding ready_def d'(4)
proof (intro conjI allI impI, goal_cases)
  note D = destinationD [OF dest] and R = readyD [OF rdy] and made = make_parents [OF dest rdy m]
  have old: "names d' x = Some e" if "names d x = Some e" for x e
    using made(1) [OF that] R(5) [OF m] that d'(1) by auto
  {
    case 1
    show ?case by (rule d'(3))
  next
    case 2
    show ?case using old R(2) by simp
  next
    case (3 x i)
    then show ?case using made(2) R(3) d' by (auto split: if_splits simp: less_Suc_eq)
  next
    case (4 x y i)
    then show ?case using made(2) R(3) [of x i] R(3) [of y i] R(4) [of x i y] d' by (auto split: if_splits)
  next
    case (5 k)
    have "dplace job d k \<noteq> dplace job d m" using dplace_inj [OF dest 5(1) m] 5(2) by auto
    then show ?case using made(5) [OF 5(1)] R(5) [OF 5(1)] 5(2) d'(1) by simp
  next
    case (6 k)
    show ?case
    proof (cases "k = m")
      case True
      have "butlast (fplace job d m) \<noteq> dplace job d m"
        using made(3,5) R(5) [OF m] m by (metis option.distinct(1) order_refl)
      then show ?thesis using made(3) d'(1) True by simp
    next
      case False
      then show ?thesis using old R(6) [OF 6(1)] 6(2) by simp
    qed
  next
    case (7 k)
    then show ?case using made(4) [OF 7] R(7) [OF 7] D(2) [OF 7 m] d'(1) by simp
  next
    case (8 k l i)
    then show ?case using made(2) R(8) [OF 8(1,2)] D(4) [OF m 8(1,2)] d'(1) by auto
  }
qed

lemma create_next:
  assumes dest: "destination job d" and rdy: "ready job d m" and m: "m < length (tj_files job)"
  shows "\<exists>d'. fs_create (parent_dirs d (final_path job m)) (download_path job m) = (Inr (FileHandle (fresh d) 0), d') \<and>
    ready job d' (Suc m) \<and> names d' (dplace job d m) = Some (FileNode (fresh d)) \<and> content d' (fresh d) = [] \<and>
    cwd d' = cwd d \<and> (\<forall>q i. names d q = Some (FileNode i) \<longrightarrow> names d' q = Some (FileNode i) \<and> inodes d' i = inodes d i)"
proof -
  obtain q c where P: "fplace job d m = q @ [c]" and Q: "dplace job d m = q @ [c @ ''.download'']"
    using destination_places [OF dest m] by metis
  let ?d2 = "parent_dirs d (final_path job m)"
  have ben: "benign d" using rdy by (simp add: ready_def)
  note frame = parent_dirs_frame [OF ben, of "final_path job m"] and R = readyD [OF rdy]
    and made = make_parents [OF dest rdy m]
  define d' where "d' = (tick ?d2)\<lparr>names := (names ?d2)(dplace job d m \<mapsto> FileNode (fresh d)),
      inodes := (inodes d)(fresh d := ([], clock ?d2)), fresh := fresh d + 1\<rparr>"
  have d': "names d' = (names ?d2)(dplace job d m \<mapsto> FileNode (fresh d))" "inodes d' = (inodes d)(fresh d := ([], clock ?d2))"
    "fresh d' = fresh d + 1" "cwd d' = cwd d" "benign d'" "place d' = place d"
    using frame ben by (simp_all add: d'_def place_def fun_eq_iff)
  have "names ?d2 q = Some DirNode" "names ?d2 (dplace job d m) = None"
    using made(3) made(5) [OF m] R(5) [OF m] P by simp_all
  then have "fs_create ?d2 (download_path job m) = (Inr (FileHandle (fresh d) 0), d')"
    using frame Q by (simp add: fs_create_def Let_def d'_def)
  moreover have "names d' x = Some e" if "names d x = Some e" for x e
    using made(1) [OF that] R(5) [OF m] that d'(1) by auto
  ultimately show ?thesis
    using create_ready [OF dest rdy m d'(1,3,5,6)] d' R(3) by (auto simp: content_def)
qed

section \<open>One file after the other\<close>

definition published :: "transfer_job \<Rightarrow> disk \<Rightarrow> nat \<Rightarrow> bytes \<Rightarrow> bool" where
  "published job d k w \<longleftrightarrow>
     (\<exists>i. names d (fplace job d k) = Some (FileNode i) \<and> inodes d i = (w, sint (modified_time (tj_files job ! k))))"

text \<open>Publishing the file being written: it gets its final name and its time.\<close>

lemma publish:
  assumes w: "writing job d k w" and rdy: "ready job d (Suc k)" and dest: "destination job d"
    and h: "tj_file job = Some (FileHandle j off)"
  shows "names (modify_time job d) = (names d)(dplace job d k := None, fplace job d k \<mapsto> FileNode j)"
    and "inodes (modify_time job d) = (inodes d)(j := (w, sint (modified_time (tj_files job ! k))))"
    and "fresh (modify_time job d) = fresh d" "cwd (modify_time job d) = cwd d" "benign (modify_time job d)"
    and "place (modify_time job d) = place d"
proof -
  have k: "as_usize (tj_file_num job) = k" "k < length (tj_files job)" "benign d" "content d j = w"
    "names d (dplace job d k) = Some (FileNode j)"
    using w h by (auto simp: writing_def)
  have ne: "fplace job d k \<noteq> dplace job d k" using destinationD(2) [OF dest k(2) k(2)] .
  have "fs_rename d (download_path job k) (final_path job k) =
      (Inr (), (tick d)\<lparr>names := (names d)(dplace job d k := None, fplace job d k \<mapsto> FileNode j)\<rparr>)"
    using k readyD(6,7) [OF rdy k(2)] by (auto simp: fs_rename_def Let_def split: option.split dentry.split)
  then have m: "modify_time job d = snd (set_file_mtime ((tick d)\<lparr>names := (names d)(dplace job d k := None, fplace job d k \<mapsto> FileNode j)\<rparr>)
      (final_path job k) (sint (modified_time (tj_files job ! k))))"
    using k by (simp add: modify_time_def)
  show "names (modify_time job d) = (names d)(dplace job d k := None, fplace job d k \<mapsto> FileNode j)"
    "inodes (modify_time job d) = (inodes d)(j := (w, sint (modified_time (tj_files job ! k))))"
    "fresh (modify_time job d) = fresh d" "cwd (modify_time job d) = cwd d" "benign (modify_time job d)"
    "place (modify_time job d) = place d"
    unfolding m using k by (simp_all add: set_file_mtime_def)
qed

lemma publish_ready:
  assumes w: "writing job d k w" and rdy: "ready job d (Suc k)" and dest: "destination job d"
    and h: "tj_file job = Some (FileHandle j off)"
  shows "ready job (modify_time job d) (Suc k)"
proof -
  note p = publish [OF assms] and D = destinationD [OF dest] and R = readyD [OF rdy]
  have k: "k < length (tj_files job)" "names d (dplace job d k) = Some (FileNode j)"
    using w h by (auto simp: writing_def)
  have nonempty: "fplace job d i \<noteq> []" if "i < length (tj_files job)" for i
    using destination_places [OF dest that] by (metis snoc_eq_iff_butlast)
  have up: "butlast (fplace job d i) \<noteq> fplace job d k" if "i < length (tj_files job)" for i
  proof -
    have "butlast (fplace job d i) = take (length (fplace job d i) - 1) (fplace job d i)" by (simp add: butlast_conv_take)
    moreover have "length (fplace job d i) - 1 < length (fplace job d i)" using nonempty [OF that] by simp
    ultimately show ?thesis using D(3) [OF k(1) that] by metis
  qed
  show ?thesis
    unfolding ready_def p(6)
  proof (intro conjI allI impI, goal_cases)
    case 1
    show ?case by (rule p(5))
  next
    case 2
    have "[] \<noteq> dplace job d k" using k(2) R(2) by auto
    then show ?case using nonempty [OF k(1)] R(2) p(1) by simp
  next
    case (3 x i)
    then show ?case using R(3) k(2) p(1,3) by (auto split: if_splits)
  next
    case (4 x y i)
    then show ?case using R(4) [OF k(2), of x] R(4) [OF k(2), of y] R(4) [of x i y] p(1)
      by (auto split: if_splits)
  next
    case (5 i)
    then show ?case using R(5) [OF 5(1)] D(2) [OF k(1) 5(1)] p(1) by simp
  next
    case (6 i)
    have "butlast (fplace job d i) \<noteq> dplace job d k" using R(6) [OF 6] k(2) by auto
    then show ?case using R(6) [OF 6] up [OF 6(1)] p(1) by simp
  next
    case (7 i)
    then show ?case using R(7) [OF 7] p(1) by simp
  next
    case (8 i l e)
    then show ?case using R(8) [OF 8(1,2)] D(3) [OF k(1) 8(1,2)] p(1) by auto
  qed
qed

text \<open>Before the first file there is nothing to publish.\<close>

lemma publish_nothing:
  assumes rdy: "ready job d 0" and job: "as_usize (tj_file_num job) = 0" "0 < length (tj_files job)"
  shows "names (modify_time job d) = names d" "fresh (modify_time job d) = fresh d" "cwd (modify_time job d) = cwd d"
    "benign (modify_time job d)" "place (modify_time job d) = place d"
proof -
  have "names d (dplace job d 0) = None" "benign d" using readyD(1,5) [OF rdy] job by auto
  then have "fs_rename d (download_path job 0) (final_path job 0) = (Inl not_found, tick d)"
    by (simp add: fs_rename_def Let_def)
  then have m: "modify_time job d = snd (set_file_mtime (tick d) (final_path job 0) (sint (modified_time (tj_files job ! 0))))"
    using job by (simp add: modify_time_def)
  show "names (modify_time job d) = names d" "fresh (modify_time job d) = fresh d" "cwd (modify_time job d) = cwd d"
    "benign (modify_time job d)" "place (modify_time job d) = place d"
    unfolding m using \<open>benign d\<close> by (simp_all add: set_file_mtime_def split: option.split dentry.split)
qed

lemma destination_cong: "place d' = place d \<Longrightarrow> same_job job job' \<Longrightarrow> destination job' d' = destination job d"
  using same_job_paths [of job job'] by (simp add: destination_def same_job_def)

lemma ready_cong: "same_job job job' \<Longrightarrow> ready job' d m = ready job d m"
  using same_job_paths [of job job'] by (simp add: ready_def same_job_def)

lemma published_cong: "same_job job job' \<Longrightarrow> published job' d k w = published job d k w"
  using same_job_paths [of job job'] by (simp add: published_def same_job_def)

lemma place_cwd: "cwd d' = cwd d \<Longrightarrow> place d' = place d"
  by (simp add: place_def fun_eq_iff)

text \<open>The files before \<open>m\<close> are published with their contents, and \<open>w\<close> of file \<open>m\<close> is written.\<close>

definition midway :: "transfer_job \<Rightarrow> disk \<Rightarrow> bytes list \<Rightarrow> nat \<Rightarrow> bytes \<Rightarrow> bool" where
  "midway job d cs m w \<longleftrightarrow>
     destination job d \<and> ready job d (Suc m) \<and> writing job d m w \<and> (\<forall>k < m. published job d k (cs ! k))"

text \<open>Nothing is written, or the files before \<open>m\<close> are.\<close>

fun before :: "transfer_job \<Rightarrow> disk \<Rightarrow> bytes list \<Rightarrow> nat \<Rightarrow> bool" where
  "before job d cs 0 = (destination job d \<and> ready job d 0 \<and> tj_file job = None \<and> as_usize (tj_file_num job) = 0)"
| "before job d cs (Suc m) = midway job d cs m (cs ! m)"

lemma midway_publish:
  assumes "midway job d cs m (cs ! m)"
  shows "destination job (modify_time job d)" "ready job (modify_time job d) (Suc m)"
    "\<forall>k < Suc m. published job (modify_time job d) k (cs ! k)"
proof -
  have mid: "destination job d" "ready job d (Suc m)" "writing job d m (cs ! m)" "\<forall>k < m. published job d k (cs ! k)"
    using assms by (auto simp: midway_def)
  obtain j where h: "tj_file job = Some (FileHandle j (length (cs ! m)))" and m: "m < length (tj_files job)"
    and j: "names d (dplace job d m) = Some (FileNode j)"
    using mid(3) by (auto simp: writing_def)
  note p = publish [OF mid(3,2,1) h] and D = destinationD [OF mid(1)] and R = readyD [OF mid(2)]
  show "destination job (modify_time job d)" using mid(1) destination_cong [OF p(6) same_job_refl] by simp
  show "ready job (modify_time job d) (Suc m)" by (rule publish_ready [OF mid(3,2,1) h])
  show "\<forall>k < Suc m. published job (modify_time job d) k (cs ! k)"
  proof (intro allI impI)
    fix k assume k: "k < Suc m"
    show "published job (modify_time job d) k (cs ! k)"
    proof (cases "k = m")
      case True
      then show ?thesis using p by (auto simp: published_def)
    next
      case False
      then have km: "k < m" "k < length (tj_files job)" using k m by auto
      obtain i where i: "names d (fplace job d k) = Some (FileNode i)" "inodes d i = (cs ! k, sint (modified_time (tj_files job ! k)))"
        using mid(4) km by (auto simp: published_def)
      have "i \<noteq> j" using R(4) [OF j, of "fplace job d k"] i(1) D(2) [OF km(2) m] by auto
      moreover have "fplace job d k \<noteq> fplace job d m" "fplace job d k \<noteq> dplace job d m"
        using D(1,2) [OF km(2) m] False by auto
      ultimately show ?thesis using i p by (auto simp: published_def)
    qed
  qed
qed

lemma before_publish:
  assumes b: "before job d cs m" and m: "m < length (tj_files job)"
  shows "destination job (modify_time job d)" "ready job (modify_time job d) m"
    "\<forall>k < m. published job (modify_time job d) k (cs ! k)" "place (modify_time job d) = place d"
    "m \<noteq> as_usize (tj_file_num job) \<or> tj_file job = None"
proof -
  have "destination job (modify_time job d) \<and> ready job (modify_time job d) m \<and>
    (\<forall>k < m. published job (modify_time job d) k (cs ! k)) \<and> place (modify_time job d) = place d \<and>
    (m \<noteq> as_usize (tj_file_num job) \<or> tj_file job = None)"
  proof (cases m)
    case 0
    then have z: "destination job d" "ready job d 0" "tj_file job = None" "as_usize (tj_file_num job) = 0" using b by auto
    have pos: "0 < length (tj_files job)" using m by auto
    note n = publish_nothing [OF z(2,4) pos]
    have "ready job (modify_time job d) 0" using z(2) n(4) unfolding ready_def n(1,2,5) by blast
    then show ?thesis using 0 z destination_cong [OF n(5) same_job_refl] n(5) by simp
  next
    case (Suc k)
    then have mid: "midway job d cs k (cs ! k)" using b by simp
    then obtain j where "tj_file job = Some (FileHandle j (length (cs ! k)))" "as_usize (tj_file_num job) = k"
      by (auto simp: midway_def writing_def)
    moreover have "place (modify_time job d) = place d"
      using mid calculation by (intro publish(6)) (auto simp: midway_def)
    ultimately show ?thesis using midway_publish [OF mid] Suc by simp
  qed
  then show "destination job (modify_time job d)" "ready job (modify_time job d) m"
    "\<forall>k < m. published job (modify_time job d) k (cs ! k)" "place (modify_time job d) = place d"
    "m \<noteq> as_usize (tj_file_num job) \<or> tj_file job = None"
    by blast+
qed

lemma begin_file:
  assumes b: "before job d cs m" and m: "m < length (tj_files job)" "m < 2 ^ 31"
  shows "\<exists>job' d'. open_for_write job d (word_of_nat m) = (Inr (), job', d') \<and> midway job' d' cs m [] \<and> same_job job job'"
proof -
  note ready = before_publish(1-4) [OF b m(1)] and other = before_publish(5) [OF b m(1)]
  define d2 where "d2 = (case tj_file job of Some h \<Rightarrow> tick (modify_time job d) | None \<Rightarrow> modify_time job d)"
  have ben: "benign (modify_time job d)" using ready(2) by (simp add: ready_def)
  have sync: "(case tj_file job of Some h \<Rightarrow> sync_all (modify_time job d) h | None \<Rightarrow> (Inr (), modify_time job d)) = (Inr (), d2)"
    using ben by (simp add: d2_def sync_all_def split: option.split)
  have d2: "names d2 = names (modify_time job d)" "inodes d2 = inodes (modify_time job d)" "place d2 = place (modify_time job d)"
      "benign d2" "fresh d2 = fresh (modify_time job d)"
    using ben by (simp_all add: d2_def split: option.split)
  define job1 where "job1 = job\<lparr>tj_file_num := word_of_nat m\<rparr>"
  have same1: "same_job job job1" by (simp add: job1_def same_job_def)
  have dest2: "destination job1 d2" using ready(1) destination_cong [OF d2(3) same1] by simp
  have "ready job d2 m" using ready(2) d2(4) unfolding ready_def d2(1,3,5) by blast
  then have rdy2: "ready job1 d2 m" using ready_cong [OF same1] by simp
  have m1: "m < length (tj_files job1)" using m by (simp add: job1_def)
  obtain d' where d': "fs_create (parent_dirs d2 (final_path job1 m)) (download_path job1 m) = (Inr (FileHandle (fresh d2) 0), d')"
      "ready job1 d' (Suc m)" "names d' (dplace job1 d2 m) = Some (FileNode (fresh d2))" "content d' (fresh d2) = []" "cwd d' = cwd d2"
      "\<forall>q i. names d2 q = Some (FileNode i) \<longrightarrow> names d' q = Some (FileNode i) \<and> inodes d' i = inodes d2 i"
    using create_next [OF dest2 rdy2 m1] by blast
  define job' where "job' = job1\<lparr>tj_file := Some (FileHandle (fresh d2) 0)\<rparr>"
  have same: "same_job job1 job'" "same_job job job'" by (simp_all add: job'_def job1_def same_job_def)
  have pl: "place d' = place d2" using place_cwd [OF d'(5)] .
  have "open_for_write job d (word_of_nat m) = (Inr (), job', d')"
    using other sync d'(1) m(2) by (simp add: open_for_write_def Let_def job'_def job1_def)
  moreover have "writing job' d' m []"
    using m m1 d' pl same_job_paths [OF same(1)] readyD(1) [OF d'(2)]
    by (simp add: writing_def job'_def job1_def)
  moreover have "published job' d' k (cs ! k)" if "k < m" for k
    using ready(3) that d'(6) same_job_paths [OF same(2)] pl d2 same(2)
    by (fastforce simp: published_def same_job_def)
  ultimately show ?thesis
    using destination_cong [OF pl same(1)] dest2 ready_cong [OF same(1)] d'(2) same(2)
    by (auto simp: midway_def)
qed

lemma midway_write:
  assumes mid: "midway job d cs m w" and blk: "blk_id blk = tj_id job" "as_usize (blk_file_num blk) = m"
  shows "\<exists>job' d'. job_write zd job d blk = Ret (Inr (), job', d') \<and> midway job' d' cs m (w @ payload zd blk) \<and> same_job job job'"
proof -
  have m: "destination job d" "ready job d (Suc m)" "writing job d m w" "\<forall>k < m. published job d k (cs ! k)"
    using mid by (auto simp: midway_def)
  obtain j where h: "tj_file job = Some (FileHandle j (length w))" and j: "names d (dplace job d m) = Some (FileNode j)"
      and len: "m < length (tj_files job)"
    using m(3) by (auto simp: writing_def)
  obtain job' d' where s: "job_write zd job d blk = Ret (Inr (), job', d')" "writing job' d' m (w @ payload zd blk)"
      "same_job job job'" "only_content d j d'"
    using write_more [OF m(3) blk h] by blast
  have d': "names d' = names d" "fresh d' = fresh d" "place d' = place d" "benign d'" "\<And>i. i \<noteq> j \<Longrightarrow> inodes d' i = inodes d i"
    using s(2,4) by (auto simp: only_content_def writing_def intro: place_cwd)
  have "published job' d' k (cs ! k)" if "k < m" for k
  proof -
    obtain i where i: "names d (fplace job d k) = Some (FileNode i)" "inodes d i = (cs ! k, sint (modified_time (tj_files job ! k)))"
      using m(4) \<open>k < m\<close> by (auto simp: published_def)
    have "i \<noteq> j"
      using readyD(4) [OF m(2) j, of "fplace job d k"] i(1) destinationD(2) [OF m(1), of k m] that len by auto
    then show ?thesis unfolding published_cong [OF s(3)] using i d' by (simp add: published_def)
  qed
  moreover have "ready job d' (Suc m)" using m(2) d'(4) unfolding ready_def d'(1-3) by blast
  ultimately show ?thesis using s m(1) destination_cong [OF d'(3) s(3)] ready_cong [OF s(3)] by (auto simp: midway_def)
qed

lemma job_write_opened:
  assumes "blk_id blk = tj_id job" "open_for_write job d (blk_file_num blk) = (Inr (), job1, d1)" "same_job job job1"
    "writing job1 d1 (as_usize (blk_file_num blk)) w"
  shows "job_write zd job d blk = job_write zd job1 d1 blk"
proof -
  obtain j where "tj_file job1 = Some (FileHandle j (length w))" "as_usize (blk_file_num blk) = as_usize (tj_file_num job1)"
    using assms(4) by (auto simp: writing_def)
  then have "open_for_write job1 d1 (blk_file_num blk) = (Inr (), job1, d1)" by (intro write_open) auto
  moreover have "as_usize (blk_file_num blk) < length (tj_files job1)" using assms(4) by (auto simp: writing_def)
  ultimately show ?thesis using assms(1-3) by (simp add: job_write_def same_job_def)
qed

lemma first_write:
  assumes b: "before job d cs m" and m: "m < length (tj_files job)" "m < 2 ^ 31"
    and blk: "blk_id blk = tj_id job" "blk_file_num blk = word_of_nat m"
  shows "\<exists>job' d'. job_write zd job d blk = Ret (Inr (), job', d') \<and> midway job' d' cs m (payload zd blk) \<and> same_job job job'"
proof -
  obtain job1 d1 where o: "open_for_write job d (word_of_nat m) = (Inr (), job1, d1)" "midway job1 d1 cs m []" "same_job job job1"
    using begin_file [OF b m] by blast
  have num: "as_usize (blk_file_num blk) = m" using blk(2) m(2) by simp
  have "blk_id blk = tj_id job1" using blk(1) o(3) by (simp add: same_job_def)
  then obtain job' d' where w: "job_write zd job1 d1 blk = Ret (Inr (), job', d')" "midway job' d' cs m (payload zd blk)" "same_job job1 job'"
    using midway_write [OF o(2) _ num, of zd] by auto
  have "job_write zd job d blk = job_write zd job1 d1 blk"
    using o blk num by (intro job_write_opened [where w = "[]"]) (auto simp: midway_def)
  then show ?thesis using w same_job_trans [OF o(3) w(3)] by auto
qed

section \<open>Copying\<close>

text \<open>\<open>n\<close> times: one block is read on the one side and written on the other.\<close>

fun copy_blocks :: "nat \<Rightarrow> 'e compressor \<Rightarrow> 'e decompressor \<Rightarrow> transfer_job \<times> disk \<Rightarrow> transfer_job \<times> disk \<Rightarrow>
    ((transfer_job \<times> disk) \<times> (transfer_job \<times> disk)) option" where
  "copy_blocks 0 zc zd r w = Some (r, w)"
| "copy_blocks (Suc n) zc zd (rj, rd) (wj, wd) =
     (case job_read zc rj rd of
        (Inr (Some blk), rj1, rd1) \<Rightarrow>
          (case job_write zd wj wd blk of
             Ret (Inr _, wj1, wd1) \<Rightarrow> copy_blocks n zc zd (rj1, rd1) (wj1, wd1)
           | _ \<Rightarrow> None)
      | _ \<Rightarrow> None)"

lemma copy_blocks_add:
  "copy_blocks n zc zd r w = Some (r1, w1) \<Longrightarrow> copy_blocks (n + m) zc zd r w = copy_blocks m zc zd r1 w1"
proof (induction n zc zd r w rule: copy_blocks.induct)
  case (2 n zc zd rj rd wj wd)
  then show ?case
    by (auto split: prod.splits sum.splits option.splits outcome.splits)
qed simp

text \<open>The reader between two files.\<close>

definition at_file :: "transfer_job \<Rightarrow> disk \<Rightarrow> bytes list \<Rightarrow> nat \<Rightarrow> bool" where
  "at_file job d cs k \<longleftrightarrow>
     tj_file_num job = word_of_nat k \<and> tj_file job = None \<and> benign d \<and> length (tj_files job) = length cs \<and>
     (\<forall>j < length cs. \<exists>i. names d (fplace job d j) = Some (FileNode i) \<and> content d i = cs ! j)"

lemma at_file_reading: "at_file job d cs k \<Longrightarrow> k < length cs \<Longrightarrow> k < 2 ^ 31 \<Longrightarrow> reading job d k (cs ! k) 0"
  by (simp add: at_file_def reading_def)

lemma at_file_next:
  assumes "at_file job d cs k" "same_job job job'" "same_disk d d'" "tj_file job' = None" "tj_file_num job' = tj_file_num job + 1"
  shows "at_file job' d' cs (Suc k)"
  using assms same_diskD [OF assms(3)] same_job_paths [OF assms(2)]
  by (simp add: at_file_def same_job_def add.commute)

lemma read_end_next:
  assumes "at_file job0 d0 cs k" "same_job job0 job" "same_disk d0 d" "tj_file_num job = tj_file_num job0"
    "reading job d k c (length c)"
  shows "\<exists>job' d'. job_read zc job d =
      (Inr (Some \<lparr>blk_id = tj_id job, blk_file_num = word_of_nat k, blk_data = [], compressed = False\<rparr>), job', d') \<and>
    at_file job' d' cs (Suc k) \<and> same_job job0 job'"
proof -
  obtain d' where d': "job_read zc job d =
      (Inr (Some \<lparr>blk_id = tj_id job, blk_file_num = word_of_nat k, blk_data = [], compressed = False\<rparr>),
       job\<lparr>tj_file_num := tj_file_num job + 1, tj_file := None\<rparr>, d')" "same_disk d d'"
    using read_end [OF assms(5), of zc] by blast
  let ?job' = "job\<lparr>tj_file_num := tj_file_num job + 1, tj_file := None\<rparr>"
  have same: "same_job job0 ?job'" using assms(2) by (simp add: same_job_def)
  have "at_file ?job' d' cs (Suc k)"
    using assms(4) by (intro at_file_next [OF assms(1) same same_disk_trans [OF assms(3) d'(2)]]) simp_all
  then show ?thesis using d'(1) same by blast
qed

text \<open>The rest of a file, once its temporary file is there.\<close>

lemma copy_rest:
  assumes z: "good_zstd zc zd" and r: "reading rj rd k c off" and off: "off \<le> length c"
    and w: "midway wj wd cs k (take off c)" and id: "tj_id wj = tj_id rj" and k: "k < 2 ^ 31"
    and base: "at_file rj0 rd0 cs k" "same_job rj0 rj" "same_disk rd0 rd" "tj_file_num rj = tj_file_num rj0"
  shows "\<exists>rj' rd' wj' wd'. copy_blocks (blocks_of (length c - off)) zc zd (rj, rd) (wj, wd) = Some ((rj', rd'), (wj', wd')) \<and>
    at_file rj' rd' cs (Suc k) \<and> same_job rj0 rj' \<and> midway wj' wd' cs k c \<and> same_job wj wj'"
  using r off w id base(2-4)
proof (induction "length c - off" arbitrary: rj rd wj wd off rule: less_induct)
  case less
  note r = less(2) and off = less(3) and w = less(4) and id = less(5) and b = base(1) less(6-8)
  show ?case
  proof (cases "off = length c")
    case True
    obtain rj' rd' where rd: "job_read zc rj rd =
        (Inr (Some \<lparr>blk_id = tj_id rj, blk_file_num = word_of_nat k, blk_data = [], compressed = False\<rparr>), rj', rd')"
        "at_file rj' rd' cs (Suc k)" "same_job rj0 rj'"
      using read_end_next [OF b] r True by blast
    obtain wj' wd' where "job_write zd wj wd \<lparr>blk_id = tj_id rj, blk_file_num = word_of_nat k, blk_data = [], compressed = False\<rparr> =
        Ret (Inr (), wj', wd')" "midway wj' wd' cs k c" "same_job wj wj'"
      using midway_write [OF w, of "\<lparr>blk_id = tj_id rj, blk_file_num = word_of_nat k, blk_data = [], compressed = False\<rparr>" zd] id k True
      by (auto simp: payload_def)
    then show ?thesis using rd True by (simp add: One_nat_def)
  next
    case False
    let ?chunk = "take BUF_SIZE (drop off c)"
    have lt: "off < length c" using False off by simp
    obtain blk rj1 rd1 where one: "job_read zc rj rd = (Inr (Some blk), rj1, rd1)" "payload zd blk = ?chunk"
        "blk_id blk = tj_id rj" "blk_file_num blk = word_of_nat k" "reading rj1 rd1 k c (off + length ?chunk)"
        "same_job rj rj1" "same_disk rd rd1" "tj_file_num rj1 = tj_file_num rj"
      using read_more [OF z r lt] by blast
    have "blk_id blk = tj_id wj" "as_usize (blk_file_num blk) = k" using one(3,4) id k by simp_all
    from midway_write [OF w this, of zd] obtain wj1 wd1 where wr: "job_write zd wj wd blk = Ret (Inr (), wj1, wd1)"
        "midway wj1 wd1 cs k (take off c @ ?chunk)" "same_job wj wj1"
      unfolding one(2) by blast
    have len: "length c - (off + length ?chunk) < length c - off" "off + length ?chunk \<le> length c"
    proof -
      have "0 < length ?chunk" "length ?chunk \<le> length c - off" using lt by simp_all
      then show "length c - (off + length ?chunk) < length c - off" "off + length ?chunk \<le> length c"
        using lt by linarith+
    qed
    have written: "take off c @ ?chunk = take (off + length ?chunk) c"
      by (simp add: take_add min_def)
    have "tj_id wj1 = tj_id rj1" using id one(6) wr(3) by (simp add: same_job_def)
    from less(1) [OF len(1) one(5) len(2) wr(2) [unfolded written] this same_job_trans [OF b(2) one(6)]
        same_disk_trans [OF b(3) one(7)]] one(8) b(4)
    obtain rj' rd' wj' wd' where rest:
      "copy_blocks (blocks_of (length c - (off + length ?chunk))) zc zd (rj1, rd1) (wj1, wd1) = Some ((rj', rd'), (wj', wd'))"
      "at_file rj' rd' cs (Suc k)" "same_job rj0 rj'" "midway wj' wd' cs k c" "same_job wj1 wj'"
      by auto
    have "blocks_of (length c - off) = Suc (blocks_of (length c - (off + length ?chunk)))"
      using lt blocks_of_more [of "length c - off"] by (simp add: min.commute)
    then show ?thesis using one wr rest same_job_trans [OF wr(3) rest(5)] by auto
  qed
qed

lemma copy_file:
  assumes z: "good_zstd zc zd" and r: "at_file rj rd cs k" and w: "before wj wd cs k" and id: "tj_id wj = tj_id rj"
    and k: "k < length cs" "k < 2 ^ 31" and n: "length (tj_files wj) = length cs"
  shows "\<exists>rj' rd' wj' wd'. copy_blocks (blocks_of (length (cs ! k))) zc zd (rj, rd) (wj, wd) = Some ((rj', rd'), (wj', wd')) \<and>
    at_file rj' rd' cs (Suc k) \<and> same_job rj rj' \<and> before wj' wd' cs (Suc k) \<and> same_job wj wj'"
proof -
  let ?c = "cs ! k"
  note reading = at_file_reading [OF r k]
  have kw: "k < length (tj_files wj)" using k n by simp
  show ?thesis
  proof (cases "?c = []")
    case True
    let ?blk = "\<lparr>blk_id = tj_id rj, blk_file_num = word_of_nat k, blk_data = [], compressed = False\<rparr>"
    obtain rj' rd' where rd: "job_read zc rj rd = (Inr (Some ?blk), rj', rd')" "at_file rj' rd' cs (Suc k)" "same_job rj rj'"
    proof -
      have "reading rj rd k ?c (length ?c)" using reading True by simp
      from read_end_next [where zc = zc, OF r same_job_refl same_disk_refl refl this] show thesis
        using that by blast
    qed
    obtain wj' wd' where "job_write zd wj wd ?blk = Ret (Inr (), wj', wd')" "midway wj' wd' cs k []" "same_job wj wj'"
      using first_write [OF w kw k(2), of ?blk zd] id by (auto simp: payload_def)
    then show ?thesis using rd True by (simp add: One_nat_def)
  next
    case False
    let ?chunk = "take BUF_SIZE ?c"
    have pos: "0 < length ?c" using False by simp
    obtain blk rj1 rd1 where one: "job_read zc rj rd = (Inr (Some blk), rj1, rd1)" "payload zd blk = ?chunk"
        "blk_id blk = tj_id rj" "blk_file_num blk = word_of_nat k" "reading rj1 rd1 k ?c (length ?chunk)"
        "same_job rj rj1" "same_disk rd rd1" "tj_file_num rj1 = tj_file_num rj"
      using read_more [OF z reading pos] by fastforce
    have "blk_id blk = tj_id wj" using one(3) id by simp
    from first_write [OF w kw k(2) this one(4), of zd] obtain wj1 wd1 where wr: "job_write zd wj wd blk = Ret (Inr (), wj1, wd1)"
        "midway wj1 wd1 cs k ?chunk" "same_job wj wj1"
      unfolding one(2) by blast
    have "tj_id wj1 = tj_id rj1" using id one(6) wr(3) by (simp add: same_job_def)
    moreover have "take BUF_SIZE ?c = take (length ?chunk) ?c" by (simp add: min_def)
    ultimately obtain rj' rd' wj' wd' where rest:
      "copy_blocks (blocks_of (length ?c - length ?chunk)) zc zd (rj1, rd1) (wj1, wd1) = Some ((rj', rd'), (wj', wd'))"
      "at_file rj' rd' cs (Suc k)" "same_job rj rj'" "midway wj' wd' cs k ?c" "same_job wj1 wj'"
      using copy_rest [OF z one(5) _ _ _ k(2) r one(6-8), of wj1 wd1] wr(2) by auto
    have "blocks_of (length ?c) = Suc (blocks_of (length ?c - length ?chunk))"
      using pos blocks_of_more [of "length ?c"] by (simp add: min.commute)
    then show ?thesis using one wr rest same_job_trans [OF wr(3) rest(5)] by auto
  qed
qed

lemma copy_all:
  assumes z: "good_zstd zc zd" and n: "m \<le> length cs" "length cs < 2 ^ 31"
    and r: "at_file rj rd cs 0" and w: "before wj wd cs 0" and id: "tj_id wj = tj_id rj"
    and len: "length (tj_files wj) = length cs"
  shows "\<exists>rj' rd' wj' wd'. copy_blocks (\<Sum>k < m. blocks_of (length (cs ! k))) zc zd (rj, rd) (wj, wd) = Some ((rj', rd'), (wj', wd')) \<and>
    at_file rj' rd' cs m \<and> same_job rj rj' \<and> before wj' wd' cs m \<and> same_job wj wj'"
  using n(1)
proof (induction m)
  case 0
  then show ?case using r w by simp
next
  case (Suc m)
  then obtain rj1 rd1 wj1 wd1 where ih:
    "copy_blocks (\<Sum>k < m. blocks_of (length (cs ! k))) zc zd (rj, rd) (wj, wd) = Some ((rj1, rd1), (wj1, wd1))"
    "at_file rj1 rd1 cs m" "same_job rj rj1" "before wj1 wd1 cs m" "same_job wj wj1"
    by auto
  have "tj_id wj1 = tj_id rj1" "length (tj_files wj1) = length cs" using ih(3,5) id len by (auto simp: same_job_def)
  moreover have "m < length cs" "m < 2 ^ 31" using Suc.prems n(2) by auto
  ultimately obtain rj' rd' wj' wd' where
    "copy_blocks (blocks_of (length (cs ! m))) zc zd (rj1, rd1) (wj1, wd1) = Some ((rj', rd'), (wj', wd'))"
    "at_file rj' rd' cs (Suc m)" "same_job rj1 rj'" "before wj' wd' cs (Suc m)" "same_job wj1 wj'"
    using copy_file [OF z ih(2,4)] by blast
  then show ?case
    using copy_blocks_add [OF ih(1)] same_job_trans [OF ih(3)] same_job_trans [OF ih(5)] by auto
qed

text \<open>C1: A transfer copies: when a job that has been set up to read a list of files and one that has been set
  up to write as many are driven block by block, with zstd keeping its promises, short reads allowed and no other
  failure, and with a destination whose places are free and do not overlap, then after the number of
  blocks the lengths call for the reader reports the end, and once the writer's \<open>modify_time\<close> has published the last
  file, every file is at its final place with exactly the content of its source and the recorded
  modification time.\<close>

theorem transfer_copies:
  assumes "good_zstd zc zd" "length cs < 2 ^ 31" "cs \<noteq> []"
    and "at_file rj rd cs 0"
    and "destination wj wd" "ready wj wd 0" "tj_file wj = None" "tj_file_num wj = 0"
    and "tj_id wj = tj_id rj" "length (tj_files wj) = length cs"
  shows "\<exists>rj' rd' wj' wd'.
    copy_blocks (\<Sum>c\<leftarrow>cs. (length c + 131071) div 131072 + 1) zc zd (rj, rd) (wj, wd) = Some ((rj', rd'), (wj', wd')) \<and>
    fst (job_read zc rj' rd') = Inr None \<and>
    (\<forall>k < length cs. published wj' (modify_time wj' wd') k (cs ! k))"
proof -
  have start: "before wj wd cs 0" using assms(5-8) by simp
  have sum: "(\<Sum>k < length cs. blocks_of (length (cs ! k))) = (\<Sum>c\<leftarrow>cs. (length c + 131071) div 131072 + 1)"
    by (simp add: sum_list_sum_nth blocks_of_def BUF_SIZE_def atLeast0LessThan)
  obtain rj' rd' wj' wd' where run:
    "copy_blocks (\<Sum>k < length cs. blocks_of (length (cs ! k))) zc zd (rj, rd) (wj, wd) = Some ((rj', rd'), (wj', wd'))"
    "at_file rj' rd' cs (length cs)" "before wj' wd' cs (length cs)"
    using copy_all [OF assms(1) order_refl assms(2,4) start assms(9,10)] by blast
  have "fst (job_read zc rj' rd') = Inr None"
    using run(2) assms(2) by (simp add: at_file_def job_read_def)
  moreover obtain m where "length cs = Suc m" using assms(3) by (cases "length cs") auto
  moreover from this have "midway wj' wd' cs m (cs ! m)" using run(3) by simp
  ultimately show ?thesis using run(1) sum midway_publish(3) by fastforce
qed

definition empty_disk :: disk where
  "empty_disk =
     \<lparr>names = [[] \<mapsto> DirNode], inodes = (\<lambda>_. ([], 0)), fresh = 0, cwd = [], clock = 50, faults = []\<rparr>"

lemma demo_target_paths [simp]:
  "resolve [] ''/t/a'' = [''t'', ''a'']" "resolve [] ''/t/b'' = [''t'', ''b'']"
  "resolve [] ''/t/a.download'' = [''t'', ''a.download'']" "resolve [] ''/t/b.download'' = [''t'', ''b.download'']"
  "ends_plain ''/t/a''" "ends_plain ''/t/b''"
  by (simp_all add: resolve_def components_def walk_def is_absolute_def ends_plain_def plain_def)

lemma demo_final_paths:
  "final_path (demo_job ''/t'') 0 = ''/t/a''" "final_path (demo_job ''/t'') (Suc 0) = ''/t/b''"
  "download_path (demo_job ''/t'') 0 = ''/t/a.download''" "download_path (demo_job ''/t'') (Suc 0) = ''/t/b.download''"
  "final_path (demo_job ''/s'') 0 = ''/s/a''" "final_path (demo_job ''/s'') (Suc 0) = ''/s/b''"
  "length (tj_files (demo_job p)) = 2"
  by (simp_all add: final_path_def download_path_def job_join_def demo_job_def transfer_job_default_def
      demo_entry_def path_join_def is_absolute_def)

lemma all_less_2: "(\<forall>k < (2 :: nat). P k) \<longleftrightarrow> P 0 \<and> P (Suc 0)"
  by (auto simp: less_Suc_eq numeral_2_eq_2)

lemma demo_destination: "destination (demo_job ''/t'') empty_disk"
  by (simp add: destination_def demo_final_paths all_less_2 All_less_Suc place_def empty_disk_def)

lemma demo_ready: "ready (demo_job ''/t'') empty_disk 0"
  by (simp add: ready_def demo_final_paths all_less_2 All_less_Suc place_def empty_disk_def benign_def)

lemma demo_at_file: "at_file (demo_job ''/s'') demo_disk [[1, 2, 3], [4, 5, 6]] 0"
  by (simp add: at_file_def demo_final_paths all_less_2 place_def demo_disk_def benign_def content_def numeral_2_eq_2 [symmetric])
    (simp add: demo_job_def transfer_job_default_def)

theorem transfer_copies_witness:
  "\<exists>rj rd wj wd. copy_blocks 4 store_c store_d (demo_job ''/s'', demo_disk) (demo_job ''/t'', empty_disk) = Some ((rj, rd), (wj, wd)) \<and>
     published wj (modify_time wj wd) 0 [1, 2, 3] \<and> published wj (modify_time wj wd) 1 [4, 5, 6]"
proof -
  have four: "(\<Sum>c\<leftarrow>[[1, 2, 3], [4, 5, 6 :: u8]]. (length c + 131071) div 131072 + 1) = 4" by simp
  have "tj_file (demo_job ''/t'') = None" "tj_file_num (demo_job ''/t'') = 0" "tj_id (demo_job ''/t'') = tj_id (demo_job ''/s'')"
    "length (tj_files (demo_job ''/t'')) = length [[1, 2, 3], [4, 5, 6 :: u8]]"
    by (simp_all add: demo_job_def transfer_job_default_def)
  from transfer_copies [OF good_store _ _ demo_at_file demo_destination demo_ready this, unfolded four]
  show ?thesis by (fastforce simp: all_less_2 numeral_2_eq_2 [symmetric])
qed

end
