(* ===== verification/File_Errors.thy ===== *)
theory File_Errors imports File_Transfer_Props begin

text \<open>
  File transfer when something is wrong: blocks that do not belong to the job, names that lead elsewhere,
  files that cannot be read or created; and the round of reads over all jobs of a connection.
\<close>

section \<open>Blocks that do not belong\<close>

text \<open>A block for another job, or for a file number that is negative or beyond the list, is refused and
  changes neither the job nor the disk.\<close>

theorem foreign_block_refused:
  assumes "blk_id blk \<noteq> tj_id job \<or> sint (blk_file_num blk) < 0 \<or> int (length (tj_files job)) \<le> sint (blk_file_num blk)"
    and "length (tj_files job) < 2 ^ 63"
  shows "\<exists>why. job_write zd job d blk = Ret (Inl (Bail why), job, d)"
proof (cases "blk_id blk = tj_id job")
  case True
  have "- (2 ^ 31) \<le> sint (blk_file_num blk)" using sint_greater_eq [of "blk_file_num blk"] by simp
  then have "length (tj_files job) \<le> as_usize (blk_file_num blk)"
    using assms True unfolding as_usize_sint by auto
  then show ?thesis using True by (simp add: job_write_def)
qed (simp add: job_write_def)

theorem foreign_block_refused_witness:
  "\<exists>why. job_write store_d (demo_job ''/t'') empty_disk \<lparr>blk_id = 5, blk_file_num = - 1, blk_data = [1], compressed = False\<rparr> =
     Ret (Inl (Bail why), demo_job ''/t'', empty_disk)"
  by (rule foreign_block_refused) (simp_all add: demo_final_paths)

section \<open>Names that lead elsewhere\<close>

lemma walk_below:
  "\<forall>c \<in> set cs. c \<noteq> ''..'' \<Longrightarrow> take (length start) (walk start cs) = start \<and> length start \<le> length (walk start cs)"
proof (induction cs arbitrary: start)
  case (Cons c cs)
  show ?case
  proof (cases "c = ''.''")
    case True
    then show ?thesis using Cons by simp
  next
    case False
    have "walk start (c # cs) = walk (start @ [c]) cs" using Cons.prems False by (simp add: walk_def)
    moreover have ih: "take (length (start @ [c])) (walk (start @ [c]) cs) = start @ [c]"
        "length (start @ [c]) \<le> length (walk (start @ [c]) cs)"
      using Cons.IH [of "start @ [c]"] Cons.prems by auto
    moreover have "take (length start) (walk (start @ [c]) cs) = take (length start) (take (length (start @ [c])) (walk (start @ [c]) cs))"
      by (simp add: min_def)
    ultimately show ?thesis by simp
  qed
qed simp



text \<open>Without the condition a block can create files anywhere.\<close>

lemma file_escapes:
  "fplace ((demo_job ''/t'')\<lparr>tj_files := [demo_entry ''../etc/x'']\<rparr>) empty_disk 0 = [''etc'', ''x'']"
  "fplace ((demo_job ''/t'')\<lparr>tj_files := [demo_entry ''/etc/x'']\<rparr>) empty_disk 0 = [''etc'', ''x'']"
  by (simp_all add: final_path_def job_join_def demo_job_def transfer_job_default_def demo_entry_def path_join_def
      is_absolute_def place_def empty_disk_def resolve_def components_def walk_def)

section \<open>The outcomes of a read\<close>

lemma fill_length:
  "fill n buf h d = (Inr out, h', d') \<Longrightarrow> length buf \<le> n \<Longrightarrow> length out \<le> n"
proof (induction n buf h d rule: fill.induct)
  case (1 n buf h d)
  obtain r h1 d1 where rd: "fs_read d h (n - length buf) = (r, h1, d1)" by (metis prod_cases3)
  show ?case
  proof (cases r)
    case (Inl e)
    then show ?thesis using 1(2) rd by (simp add: fill.simps [of n buf])
  next
    case (Inr got)
    then have "length (buf @ got) \<le> n" using fs_read_length [of d h "n - length buf" got h1 d1] rd 1(3) by simp
    then show ?thesis using 1 rd Inr by (auto simp: fill.simps [of n buf] split: if_splits)
  qed
qed

abbreviation (input) advanced :: "transfer_job \<Rightarrow> transfer_job" where
  "advanced job \<equiv> job\<lparr>tj_file_num := tj_file_num job + 1, tj_file := None\<rparr>"

lemma job_read_cases:
  assumes "job_read zc job d = (r, job', d')"
  obtains (Done) "length (tj_files job) \<le> as_usize (tj_file_num job)" "r = Inr None" "job' = job\<lparr>tj_file := None\<rparr>" "d' = d"
  | (Failed) err where "as_usize (tj_file_num job) < length (tj_files job)" "r = Inl (Io err)" "job' = advanced job"
  | (Ended) "as_usize (tj_file_num job) < length (tj_files job)" "job' = advanced job"
      "r = Inr (Some \<lparr>blk_id = tj_id job, blk_file_num = word_of_nat (as_usize (tj_file_num job)), blk_data = [], compressed = False\<rparr>)"
  | (Block) buf bytes_out packed h where "as_usize (tj_file_num job) < length (tj_files job)" "buf \<noteq> []" "length buf \<le> BUF_SIZE"
      "read_block zc (name (tj_files job ! as_usize (tj_file_num job))) buf = (bytes_out, packed)"
      "r = Inr (Some \<lparr>blk_id = tj_id job, blk_file_num = word_of_nat (as_usize (tj_file_num job)), blk_data = bytes_out, compressed = packed\<rparr>)"
      "job' = job\<lparr>tj_file := Some h, tj_finished_size := tj_finished_size job + word_of_nat (length buf),
         tj_transfered := tj_transfered job + word_of_nat (length bytes_out)\<rparr>"
proof (cases "length (tj_files job) \<le> as_usize (tj_file_num job)")
  case True
  then show ?thesis using assms Done by (simp add: job_read_def)
next
  case False
  have none: "tj_file job = None" if "read_open job d = (Inl err, d1)" for err d1
    using that by (cases "tj_file job") (simp_all add: read_open_def)
  have same: "job\<lparr>tj_file_num := n\<rparr> = job\<lparr>tj_file_num := n, tj_file := None\<rparr>" if "tj_file job = None" for n
    using that by (cases job) simp
  obtain r1 d1 where op: "read_open job d = (r1, d1)" by fastforce
  show ?thesis
  proof (cases r1)
    case (Inl err)
    then show ?thesis using assms False op none [of err d1] same [of "tj_file_num job + 1"] Failed [of err] by (simp add: job_read_def)
  next
    case (Inr h)
    obtain r2 h' d2 where fl: "fill BUF_SIZE [] h d1 = (r2, h', d2)" by (metis prod_cases3)
    show ?thesis
    proof (cases r2)
      case (Inl err)
      then show ?thesis using assms False op \<open>r1 = Inr h\<close> fl Failed [of err] by (simp add: job_read_def)
    next
      case buf: (Inr buf)
      have len: "length buf \<le> BUF_SIZE" using fill_length [of BUF_SIZE "[]"] fl buf by simp
      obtain bytes_out packed where out: "read_block zc (name (tj_files job ! as_usize (tj_file_num job))) buf = (bytes_out, packed)"
        by fastforce
      show ?thesis
        using assms False op Inr fl buf out Ended Block [OF _ _ len out, of h'] by (cases "buf = []") (simp_all add: job_read_def)
    qed
  qed
qed

section \<open>Reading errors\<close>



section \<open>A file that cannot be created\<close>

definition midway_job :: transfer_job where
  "midway_job = (demo_job ''/t'')\<lparr>tj_file := Some (FileHandle 0 3)\<rparr>"

definition refusing_disk :: disk where
  "refusing_disk =
     \<lparr>names = [[] \<mapsto> DirNode, [''t''] \<mapsto> DirNode, [''t'', ''a.download''] \<mapsto> FileNode 0],
      inodes = (\<lambda>_. ([1, 2, 3], 0)), fresh = 1, cwd = [], clock = 50,
      faults = [Fine, Fine, Fine, Fine, Refuse 0 (IoError (OsKind 28) ''No space left on device'')]\<rparr>"

lemma midway_paths:
  "final_path midway_job 0 = ''/t/a''" "final_path midway_job (Suc 0) = ''/t/b''"
  "download_path midway_job 0 = ''/t/a.download''" "download_path midway_job (Suc 0) = ''/t/b.download''"
  "final_path (midway_job\<lparr>tj_file_num := n\<rparr>) (Suc 0) = ''/t/b''"
  "download_path (midway_job\<lparr>tj_file_num := n\<rparr>) (Suc 0) = ''/t/b.download''"
  "tj_id midway_job = 5" "length (tj_files midway_job) = 2" "tj_file_num midway_job = 0" "tj_file midway_job = Some (FileHandle 0 3)"
  by (simp_all add: midway_job_def final_path_def download_path_def job_join_def demo_job_def transfer_job_default_def
      demo_entry_def path_join_def is_absolute_def)

lemma as_usize_1 [simp]: "as_usize 1 = Suc 0"
  using as_usize_of_nat [of 1] by simp

lemma demo_parent: "path_parent ''/t/b'' = Some (True, [''t''])"
  by (simp add: path_parent_def components_def is_absolute_def)

lemma refusing_open:
  "\<exists>d1. open_for_write midway_job refusing_disk 1 =
     (Inl (Io (IoError (OsKind 28) ''No space left on device'')), midway_job\<lparr>tj_file_num := 1\<rparr>, d1) \<and>
     benign d1 \<and> content d1 0 = [1, 2, 3]"
  by (simp add: open_for_write_def Let_def midway_paths modify_time_def fs_rename_def set_file_mtime_def sync_all_def
      parent_dirs_def create_dir_all_def fs_create_def attempt_io_def take_fault_def refusing_disk_def place_def
      demo_parent walk_def benign_def content_def split: prod.split)


section \<open>The round over all jobs\<close>

text \<open>A stream that keeps what it is sent.\<close>

definition log_send :: "message list \<Rightarrow> message \<Rightarrow> (anyhow_error + unit) \<times> message list" where
  "log_send s m = (Inr (), s @ [m])"

text \<open>The reads of a round, one after the other.\<close>

fun round_reads :: "'e compressor \<Rightarrow> transfer_job list \<Rightarrow> disk \<Rightarrow>
    ((anyhow_error + file_transfer_block option) \<times> transfer_job) list" where
  "round_reads zc [] d = []"
| "round_reads zc (job # jobs) d =
     (case job_read zc job d of (r, job', d') \<Rightarrow> (r, job') # round_reads zc jobs d')"

lemma job_read_id: "job_read zc job d = (r, job', d') \<Longrightarrow> tj_id job' = tj_id job"
  by (auto simp: job_read_def Let_def split: if_splits prod.splits sum.splits)

lemma round_reads_ids: "map (tj_id \<circ> snd) (round_reads zc jobs d) = map tj_id jobs"
  by (induction zc jobs d rule: round_reads.induct) (auto split: prod.split dest: job_read_id)

lemma serve_jobs_log:
  assumes "send_msg env = log_send"
  shows "\<exists>d'. serve_jobs env jobs s d =
    (Inr (map (tj_id \<circ> snd) (filter (\<lambda>(r, job). r = Inr None) (round_reads (zcomp env) jobs d))),
     map snd (round_reads (zcomp env) jobs d),
     s @ map (\<lambda>(r, job). read_reply (show_error env) r job) (round_reads (zcomp env) jobs d), d')"
proof (induction jobs arbitrary: s d)
  case (Cons job jobs)
  obtain r job' d1 where rd: "job_read (zcomp env) job d = (r, job', d1)" by (cases "job_read (zcomp env) job d")
  show ?case using Cons [of "s @ [read_reply (show_error env) r job']" d1]
    by (auto simp: rd assms log_send_def)
qed simp

lemma fold_remove_job: "fold remove_job ids jobs = filter (\<lambda>x. tj_id x \<notin> set ids) jobs"
  by (induction ids arbitrary: jobs) (auto simp: remove_job_def intro: filter_cong)

lemma filter_finished:
  assumes "distinct (map (tj_id \<circ> snd) rs)"
  shows "filter (\<lambda>x. tj_id x \<notin> set (map (tj_id \<circ> snd) (filter P rs))) (map snd rs) = map snd (filter (\<lambda>x. \<not> P x) rs)"
  using assms
proof (induction rs)
  case (Cons x rs)
  have out: "tj_id (snd x) \<notin> set (map (tj_id \<circ> snd) (filter P rs))" using Cons.prems by auto
  have "tj_id (snd y) \<noteq> tj_id (snd x)" if "y \<in> set rs" for y using Cons.prems that by (auto simp: image_iff)
  then have "filter (\<lambda>j. tj_id j \<noteq> tj_id (snd x) \<and> Q j) (map snd rs) = filter Q (map snd rs)" for Q
    by (intro filter_cong) auto
  then show ?case using Cons out by (cases "P x") (simp_all add: comp_def)
qed simp



end
