(* ===== verification/Job_Machine.thy ===== *)
theory Job_Machine imports File_Errors Machine begin

text \<open>
  A \<open>TransferJob\<close> of \<open>libs/hbb_common/src/fs.rs\<close> as a machine of its operations, on a disk that may refuse
  any call: what of the job is always well formed, so that nothing in it panics or wraps, and how its
  progress counters on the two ends of a transfer compare.
\<close>

section \<open>Operations\<close>

datatype job_op = Read | Write file_transfer_block | PublishLast | DropDownload

datatype job_result =
    ReadGives "anyhow_error + file_transfer_block option"
  | WriteGives "anyhow_error + unit"

text \<open>A panic is no step.\<close>

fun job_step :: "'e compressor \<Rightarrow> 'e decompressor \<Rightarrow> transfer_job \<times> disk \<Rightarrow> job_op \<Rightarrow>
    ((transfer_job \<times> disk) \<times> job_result list) option" where
  "job_step zc zd (job, d) Read =
     (case job_read zc job d of (r, job', d') \<Rightarrow> Some ((job', d'), [ReadGives r]))"
| "job_step zc zd (job, d) (Write blk) =
     (case job_write zd job d blk of
        Ret (r, job', d') \<Rightarrow> Some ((job', d'), [WriteGives r])
      | Panic \<Rightarrow> None)"
| "job_step zc zd (job, d) PublishLast = Some ((job, modify_time job d), [])"
| "job_step zc zd (job, d) DropDownload = Some ((job, remove_download_file job d), [])"

section \<open>Well-formed jobs\<close>

definition wf_job :: "transfer_job \<Rightarrow> bool" where
  "wf_job job \<longleftrightarrow>
     length (tj_files job) < 2 ^ 31 \<and> as_usize (tj_file_num job) \<le> length (tj_files job) \<and>
     (tj_file job \<noteq> None \<longrightarrow> as_usize (tj_file_num job) < length (tj_files job))"

lemma as_usize_bound: "as_usize n < 2 ^ 31 \<Longrightarrow> 0 \<le> sint n \<and> as_usize n = nat (sint n)"
  using sint_greater_eq [of n] by (auto simp: as_usize_sint split: if_splits)

lemma as_usize_next:
  assumes "as_usize n < l" "l < 2 ^ 31"
  shows "as_usize (n + 1) = as_usize n + 1 \<and> sint (n + 1) = sint n + 1"
proof -
  have n: "0 \<le> sint n" "as_usize n = nat (sint n)" using as_usize_bound [of n] assms by auto
  then have "n = word_of_nat (as_usize n)" by (simp add: word_of_int_nat [symmetric])
  moreover have "as_usize n + 1 < 2 ^ 31" using assms by simp
  ultimately have "as_usize (n + 1) = as_usize n + 1"
    using as_usize_of_nat [of "as_usize n + 1"] by (metis of_nat_1 of_nat_add)
  moreover from this have "0 \<le> sint (n + 1) \<and> as_usize (n + 1) = nat (sint (n + 1))"
    using as_usize_bound [of "n + 1"] assms by simp
  ultimately show ?thesis using n by simp
qed

lemma wf_advance:
  assumes "wf_job job" "as_usize (tj_file_num job) < length (tj_files job)"
  shows "wf_job (job\<lparr>tj_file_num := tj_file_num job + 1, tj_file := None\<rparr>)"
  using assms as_usize_next [OF assms(2)] by (simp add: wf_job_def)

lemma job_read_wf:
  assumes "wf_job job" "job_read zc job d = (r, job', d')"
  shows "wf_job job'"
  using assms(2) by (cases rule: job_read_cases) (use assms(1) wf_advance in \<open>auto simp: wf_job_def\<close>)

lemma open_for_write_cases:
  assumes "open_for_write job d num = (r, job', d')"
  obtains (Kept) h where "as_usize num = as_usize (tj_file_num job)" "tj_file job = Some h" "r = Inr ()" "job' = job"
  | (Unsynced) err where "r = Inl (Io err)" "job' = job"
  | (Uncreated) err where "r = Inl (Io err)" "job' = job\<lparr>tj_file_num := num\<rparr>"
  | (Created) h where "r = Inr ()" "job' = job\<lparr>tj_file_num := num, tj_file := Some h\<rparr>"
proof (cases "as_usize num \<noteq> as_usize (tj_file_num job) \<or> tj_file job = None")
  case False
  then obtain h where h: "tj_file job = Some h" "as_usize num = as_usize (tj_file_num job)" by blast
  moreover have "r = Inr () \<and> job' = job" using assms h by (simp add: open_for_write_def)
  ultimately show ?thesis using Kept by blast
next
  case True
  let ?k = "as_usize num" and ?d = "modify_time job d" and ?job = "job\<lparr>tj_file_num := num\<rparr>"
  obtain r1 d1 where sync: "(case tj_file job of Some h \<Rightarrow> sync_all ?d h | None \<Rightarrow> (Inr (), ?d)) = (r1, d1)" by fastforce
  obtain r2 d2 where mk: "fs_create (parent_dirs d1 (final_path ?job ?k)) (download_path ?job ?k) = (r2, d2)" by fastforce
  show ?thesis
  proof (cases r1)
    case (Inl err)
    then have "r = Inl (Io err) \<and> job' = job"
      using assms unfolding open_for_write_def Let_def if_P [OF True] sync by simp
    then show ?thesis using Unsynced by blast
  next
    case (Inr u)
    then have eq: "(case r2 of Inl e \<Rightarrow> (Inl (Io e), ?job, d2) | Inr h \<Rightarrow> (Inr (), ?job\<lparr>tj_file := Some h\<rparr>, d2)) = (r, job', d')"
      using assms unfolding open_for_write_def Let_def if_P [OF True] sync by (simp add: mk split: sum.splits)
    show ?thesis
    proof (cases r2)
      case (Inl err)
      then have "r = Inl (Io err) \<and> job' = ?job" using eq by simp
      then show ?thesis using Uncreated by blast
    next
      case (Inr h)
      then have "r = Inr () \<and> job' = ?job\<lparr>tj_file := Some h\<rparr>" using eq by simp
      then show ?thesis using Created [of h] by simp
    qed
  qed
qed

lemma job_write_wf:
  assumes wf: "wf_job job"
  shows "\<exists>r job' d'. job_write zd job d blk = Ret (r, job', d') \<and> wf_job job'"
proof (cases "blk_id blk \<noteq> tj_id job \<or> length (tj_files job) \<le> as_usize (blk_file_num blk)")
  case True
  then show ?thesis using wf by (auto simp: job_write_def)
next
  case False
  then have k: "as_usize (blk_file_num blk) < length (tj_files job)" by simp
  obtain r job1 d1 where op: "open_for_write job d (blk_file_num blk) = (r, job1, d1)" by (metis prod_cases3)
  from op show ?thesis
  proof (cases rule: open_for_write_cases)
    case (Kept h)
    then show ?thesis using False op wf by (auto simp: job_write_def write_data_def wf_job_def split: prod.split sum.split)
  next
    case (Created h)
    then show ?thesis using False op wf k by (auto simp: job_write_def write_data_def wf_job_def split: prod.split sum.split)
  qed (use False op wf k in \<open>auto simp: job_write_def wf_job_def\<close>)
qed

interpretation sound_job: machine_invariant "job_step zc zd" "\<lambda>(job, d). wf_job job" "\<lambda>_. True"
proof
  fix s s' oper out
  assume wf: "case s of (job, d) \<Rightarrow> wf_job job" and step: "job_step zc zd s oper = Some (s', out)"
  obtain job d where s: "s = (job, d)" by fastforce
  show "case s' of (job, d) \<Rightarrow> wf_job job"
  proof (cases oper)
    case Read
    then show ?thesis using wf step s job_read_wf by (auto split: prod.splits)
  next
    case (Write blk)
    then show ?thesis using wf step s job_write_wf [of job zd d blk] by auto
  qed (use wf step s in auto)
qed

lemma job_step_possible:
  assumes "wf_job job"
  shows "job_step zc zd (job, d) oper \<noteq> None"
proof (cases oper)
  case (Write blk)
  then show ?thesis using job_write_wf [OF assms, of zd d blk] by auto
qed (simp_all split: prod.split)

lemma job_run_possible: "wf_job job \<Longrightarrow> run_machine (job_step zc zd) (job, d) ops \<noteq> None"
proof (induction ops arbitrary: job d)
  case (Cons oper ops)
  obtain job1 d1 out where step: "job_step zc zd (job, d) oper = Some ((job1, d1), out)"
    using job_step_possible [OF Cons.prems, of zc zd d oper] by auto
  have "wf_job job1" using sound_job.preserved [OF _ _ step] Cons.prems by simp
  then show ?case using Cons.IH [of job1 d1] step by (auto simp: run_machine.simps(2) split: option.split)
qed simp

text \<open>The file numbers on blocks, in both directions, name a file of the list.\<close>

fun named_file :: "transfer_job \<Rightarrow> job_result \<Rightarrow> bool" where
  "named_file job (ReadGives (Inr (Some blk))) = (as_usize (blk_file_num blk) < length (tj_files job) \<and> blk_id blk = tj_id job)"
| "named_file job _ = True"



section \<open>Progress\<close>

text \<open>One block moves the counters of both ends by the same amounts.\<close>

lemma write_counts:
  assumes "job_write zd job d blk = Ret (Inr u, job', d')"
  shows "tj_finished_size job' = tj_finished_size job + word_of_nat (length (payload zd blk)) \<and>
    tj_transfered job' = tj_transfered job + word_of_nat (length (blk_data blk))"
proof -
  have pass: "blk_id blk = tj_id job" "as_usize (blk_file_num blk) < length (tj_files job)"
    using assms by (auto simp: job_write_def split: if_splits)
  obtain r job1 d1 where op: "open_for_write job d (blk_file_num blk) = (r, job1, d1)" by (metis prod_cases3)
  have same: "tj_finished_size job1 = tj_finished_size job \<and> tj_transfered job1 = tj_transfered job"
    using op by (cases rule: open_for_write_cases) simp_all
  obtain h where h: "tj_file job1 = Some h" "r = Inr ()"
    using assms pass op by (cases r; cases "tj_file job1") (auto simp: job_write_def)
  then have "write_data job1 d1 h (payload zd blk) (length (blk_data blk)) = (Inr u, job', d')"
    using assms pass op by (simp add: job_write_def payload_def)
  then show ?thesis using same by (auto simp: write_data_def split: prod.splits sum.splits)
qed

lemma read_counts:
  assumes "good_zstd zc zd" "job_read zc job d = (Inr (Some blk), job', d')"
  shows "tj_finished_size job' = tj_finished_size job + word_of_nat (length (payload zd blk)) \<and>
    tj_transfered job' = tj_transfered job + word_of_nat (length (blk_data blk))"
  using assms(2)
proof (cases rule: job_read_cases)
  case (Block buf bytes_out packed h)
  then have "payload zd blk = buf"
    using read_block_payload [OF assms(1) Block(3,4)] by (cases packed) (simp_all add: payload_def)
  then show ?thesis using Block by simp
qed (simp_all add: payload_def)

lemma copy_counts:
  assumes "good_zstd zc zd" "copy_blocks n zc zd (rj, rd) (wj, wd) = Some ((rj', rd'), (wj', wd'))"
  shows "tj_finished_size wj' - tj_finished_size wj = tj_finished_size rj' - tj_finished_size rj \<and>
    tj_transfered wj' - tj_transfered wj = tj_transfered rj' - tj_transfered rj"
  using assms(2)
proof (induction n arbitrary: rj rd wj wd)
  case (Suc n)
  obtain blk rj1 rd1 wj1 wd1 where 1: "job_read zc rj rd = (Inr (Some blk), rj1, rd1)"
      "job_write zd wj wd blk = Ret (Inr (), wj1, wd1)" "copy_blocks n zc zd (rj1, rd1) (wj1, wd1) = Some ((rj', rd'), (wj', wd'))"
    using Suc.prems by (auto split: prod.splits sum.splits option.splits outcome.splits)
  show ?case using Suc.IH [OF 1(3)] read_counts [OF assms(1) 1(1)] write_counts [OF 1(2)]
    by (simp add: algebra_simps)
qed simp

lemma copy_reads:
  "copy_blocks n zc zd (rj, rd) (wj, wd) = Some ((rj', rd'), (wj', wd')) \<Longrightarrow>
     \<exists>rs. read_times n zc rj rd = (rs, rj', rd')"
proof (induction n arbitrary: rj rd wj wd)
  case (Suc n)
  then obtain blk rj1 rd1 wj1 wd1 where 1: "job_read zc rj rd = (Inr (Some blk), rj1, rd1)"
      "copy_blocks n zc zd (rj1, rd1) (wj1, wd1) = Some ((rj', rd'), (wj', wd'))"
    by (auto split: prod.splits sum.splits option.splits outcome.splits)
  then show ?case using Suc.IH [OF 1(2)] by auto
qed simp

lemma read_times_add:
  "read_times n zc job d = (rs, job1, d1) \<Longrightarrow>
     read_times (n + m) zc job d = (case read_times m zc job1 d1 of (rs', r) \<Rightarrow> (rs @ rs', r))"
  by (induction n arbitrary: job d rs) (auto split: prod.splits)

text \<open>Reading whole files counts their bytes.\<close>

lemma read_files_counts:
  assumes "good_zstd zc zd" "m \<le> length cs" "length cs < 2 ^ 31" "at_file job d cs 0"
  shows "\<exists>rs job' d'. read_times (\<Sum>k < m. blocks_of (length (cs ! k))) zc job d = (rs, job', d') \<and> at_file job' d' cs m \<and>
    tj_finished_size job' = tj_finished_size job + word_of_nat (\<Sum>k < m. length (cs ! k))"
  using assms(2)
proof (induction m)
  case (Suc m)
  obtain rs job1 d1 where ih: "read_times (\<Sum>k < m. blocks_of (length (cs ! k))) zc job d = (rs, job1, d1)" "at_file job1 d1 cs m"
    "tj_finished_size job1 = tj_finished_size job + word_of_nat (\<Sum>k < m. length (cs ! k))"
    using Suc by auto
  have "m < length cs" "m < 2 ^ 31" using Suc.prems assms(3) by auto
  from read_times_blocks [OF assms(1) at_file_reading [OF ih(2) this]] obtain blks job' d' where
    "read_times (blocks_of (length (cs ! m))) zc job1 d1 = (map (Inr \<circ> Some) blks, job', d')" "tj_file job' = None"
    "tj_file_num job' = tj_file_num job1 + 1" "same_disk d1 d'" "same_job job1 job'"
    "tj_finished_size job' = tj_finished_size job1 + word_of_nat (length (cs ! m))"
    by auto
  moreover from this have "at_file job' d' cs (Suc m)" by (intro at_file_next [OF ih(2)]) simp_all
  ultimately show ?case using ih by (auto simp: read_times_add)
qed (use assms(4) in simp)

text \<open>C35: Progress is counted alike on both ends: while blocks are copied from one job to another, on any disks, the
  bytes finished and the bytes transferred grow by the same amounts on both, and when a list of files has
  been copied as a whole, the bytes finished on both ends are the sum of the lengths of the files, in 64 bits.\<close>

theorem progress_counted:
  assumes "good_zstd zc zd" "length cs < 2 ^ 31" "at_file rj rd cs 0"
    and "copy_blocks (\<Sum>c\<leftarrow>cs. (length c + 131071) div 131072 + 1) zc zd (rj, rd) (wj, wd) = Some ((rj', rd'), (wj', wd'))"
    and "tj_finished_size rj = 0" "tj_finished_size wj = 0" "tj_transfered rj = 0" "tj_transfered wj = 0"
  shows "tj_transfered wj' = tj_transfered rj' \<and> tj_finished_size wj' = tj_finished_size rj' \<and>
    tj_finished_size rj' = word_of_nat (\<Sum>c\<leftarrow>cs. length c) \<and>
    (\<forall>n rj1 rd1 wj1 wd1. copy_blocks n zc zd (rj, rd) (wj, wd) = Some ((rj1, rd1), (wj1, wd1)) \<longrightarrow>
       tj_finished_size wj1 = tj_finished_size rj1 \<and> tj_transfered wj1 = tj_transfered rj1)"
proof -
  have blocks: "(\<Sum>k < length cs. blocks_of (length (cs ! k))) = (\<Sum>c\<leftarrow>cs. (length c + 131071) div 131072 + 1)"
    by (simp add: sum_list_sum_nth blocks_of_def BUF_SIZE_def atLeast0LessThan)
  have bytes_sum: "(\<Sum>k < length cs. length (cs ! k)) = (\<Sum>c\<leftarrow>cs. length c)"
    by (simp add: sum_list_sum_nth atLeast0LessThan)
  obtain rs job' d' where "read_times (\<Sum>c\<leftarrow>cs. (length c + 131071) div 131072 + 1) zc rj rd = (rs, job', d')"
      "tj_finished_size job' = word_of_nat (\<Sum>c\<leftarrow>cs. length c)"
    using read_files_counts [OF assms(1) order_refl assms(2,3)] assms(5) unfolding blocks bytes_sum by auto
  then have whole: "tj_finished_size rj' = word_of_nat (\<Sum>c\<leftarrow>cs. length c)"
    using copy_reads [OF assms(4)] by auto
  have alike: "tj_finished_size wj1 = tj_finished_size rj1 \<and> tj_transfered wj1 = tj_transfered rj1"
    if "copy_blocks n zc zd (rj, rd) (wj, wd) = Some ((rj1, rd1), (wj1, wd1))" for n rj1 rd1 wj1 wd1
    using copy_counts [OF assms(1) that] assms(5-8) by simp
  show ?thesis using alike [OF assms(4)] alike whole by blast
qed

theorem progress_counted_witness:
  "\<exists>rj rd wj wd. copy_blocks 4 store_c store_d (demo_job ''/s'', demo_disk) (demo_job ''/t'', empty_disk) = Some ((rj, rd), (wj, wd)) \<and>
     tj_finished_size wj = 6 \<and> tj_finished_size rj = 6"
proof -
  have four: "(\<Sum>c\<leftarrow>[[1, 2, 3], [4, 5, 6 :: u8]]. (length c + 131071) div 131072 + 1) = 4" by simp
  have zero: "tj_finished_size (demo_job p) = 0" "tj_transfered (demo_job p) = 0" for p
    by (simp_all add: demo_job_def transfer_job_default_def)
  have many: "length [[1, 2, 3], [4, 5, 6 :: u8]] < 2 ^ 31" by simp
  have "before (demo_job ''/t'') empty_disk [[1, 2, 3], [4, 5, 6]] 0"
    using demo_destination demo_ready by (simp add: demo_job_def transfer_job_default_def)
  moreover have "tj_id (demo_job ''/t'') = tj_id (demo_job ''/s'')" "length (tj_files (demo_job ''/t'')) = length [[1, 2, 3], [4, 5, 6 :: u8]]"
    by (simp_all add: demo_job_def)
  ultimately obtain rj rd wj wd where
    "copy_blocks (\<Sum>k < length [[1, 2, 3], [4, 5, 6 :: u8]]. blocks_of (length ([[1, 2, 3], [4, 5, 6 :: u8]] ! k))) store_c store_d
       (demo_job ''/s'', demo_disk) (demo_job ''/t'', empty_disk) = Some ((rj, rd), (wj, wd))"
    using copy_all [OF good_store order_refl many demo_at_file] by blast
  moreover have "(\<Sum>k < length [[1, 2, 3], [4, 5, 6 :: u8]]. blocks_of (length ([[1, 2, 3], [4, 5, 6 :: u8]] ! k))) = 4"
    by (simp add: blocks_of_def BUF_SIZE_def lessThan_Suc)
  ultimately have run: "copy_blocks 4 store_c store_d (demo_job ''/s'', demo_disk) (demo_job ''/t'', empty_disk) = Some ((rj, rd), (wj, wd))"
    by metis
  from progress_counted [OF good_store many demo_at_file run [folded four] zero(1) zero(1) zero(2) zero(2)]
  show ?thesis using run by simp
qed

end
