(* ===== verification/Config_Paths.thy ===== *)
theory Config_Paths imports Paths begin

text \<open>
  Where \<open>libs/hbb_common/src/config.rs\<close> keeps its files (the Linux build), with the parts of
  \<open>std::path\<close> only it uses: \<open>with_extension\<close>, \<open>file_stem\<close>, \<open>extension\<close>. What the system says of the
  user's directories is the argument \<open>sys\<close>.
\<close>

section \<open>Extensions\<close>

text \<open>A file name without and with its extension; a name that only begins with a dot has none.\<close>

definition split_stem :: "string \<Rightarrow> string \<times> string option" where
  "split_stem f =
     (let parts = split_on CHR ''.'' f in
      if f = ''..'' \<or> length parts = 1 then (f, None)
      else if length parts = 2 \<and> hd parts = [] then (f, None)
      else (take (length f - length (last parts) - 1) f, Some (last parts)))"

definition file_stem :: "string \<Rightarrow> string option" where
  "file_stem p = map_option (fst \<circ> split_stem) (path_file_name p)"

definition extension :: "string \<Rightarrow> string option" where
  "extension p = Option.bind (path_file_name p) (snd \<circ> split_stem)"

text \<open>A path up to the end of its file name: what follows are separators and \<open>.\<close> components.\<close>

fun strip_tail :: "string \<Rightarrow> string" where
  "strip_tail (c # r) =
     (if c = CHR ''/'' then strip_tail r
      else if c = CHR ''.'' \<and> r \<noteq> [] \<and> hd r = CHR ''/'' then strip_tail r
      else c # r)"
| "strip_tail [] = []"

definition with_extension :: "string \<Rightarrow> string \<Rightarrow> string" where
  "with_extension p ext =
     (case path_file_name p of
        None \<Rightarrow> p
      | Some f \<Rightarrow>
          let q = rev (strip_tail (rev p))
          in take (length q - length f) q @ fst (split_stem f) @ ''.'' @ ext)"

section \<open>The system\<close>

record sys_env =
  home_dir :: "string option"
  current_dir :: "io_error + string"
  temp_dir :: string
  project_config_dir :: "string option"
  whoami :: "io_error + string" \<comment> \<open>the standard output of the command\<close>
  make_dir :: "string \<Rightarrow> bool" \<comment> \<open>whether creating a directory succeeds\<close>

definition APP_NAME :: string where "APP_NAME = ''RustDesk''"

definition PEERS :: string where "PEERS = ''peers''"

text \<open>\<open>/root\<close> is replaced by the home of the user who runs the program.\<close>

definition patch :: "sys_env \<Rightarrow> string \<Rightarrow> string" where
  "patch sys path =
     (if path = ''/root'' then
        (case whoami sys of
           Inr output \<Rightarrow>
             let user = trim output in
             if user \<noteq> ''root'' then ''/home/'' @ user else path
         | Inl _ \<Rightarrow> path)
      else path)"

definition get_home :: "sys_env \<Rightarrow> string" where
  "get_home sys =
     (case home_dir sys of
        Some path \<Rightarrow> patch sys path
      | None \<Rightarrow> (case current_dir sys of Inr path \<Rightarrow> path | Inl _ \<Rightarrow> temp_dir sys))"

definition config_path :: "sys_env \<Rightarrow> string \<Rightarrow> string" where
  "config_path sys p =
     (case project_config_dir sys of
        Some dir \<Rightarrow> path_join (patch sys dir) p
      | None \<Rightarrow> [])"

definition file_of :: "sys_env \<Rightarrow> string \<Rightarrow> string" where
  "file_of sys suffix = with_extension (config_path sys (APP_NAME @ suffix)) ''toml''"

definition config_file :: "sys_env \<Rightarrow> string" where
  "config_file sys = file_of sys []"

definition get_home_as_string :: "sys_env \<Rightarrow> string" where
  "get_home_as_string sys = get_home sys"

text \<open>The calls made on the way are returned with the path; their failure is ignored.\<close>

datatype dir_call = CreateDirAll string | CreateDir string | SetMode string nat

definition log_path :: "sys_env \<Rightarrow> string \<times> dir_call list" where
  "log_path sys =
     (let path = path_join (get_home sys) (''.local/share/logs/'' @ APP_NAME) in (path, [CreateDirAll path]))"

text \<open>The mode is \<open>0o0777\<close>.\<close>

definition ipc_path :: "string \<Rightarrow> string \<times> dir_call list" where
  "ipc_path postfix =
     (let path = ''/tmp/'' @ APP_NAME in (path_join path (''ipc'' @ postfix), [CreateDir path, SetMode path 511]))"

definition icon_path :: "sys_env \<Rightarrow> string" where
  "icon_path sys =
     (let path = config_path sys ''icons'' in if make_dir sys path then path else temp_dir sys)"

text \<open>\<open>[PEERS, id].iter().collect()\<close> pushes the two onto the empty path.\<close>

definition peer_path :: "sys_env \<Rightarrow> string \<Rightarrow> string" where
  "peer_path sys peer_id =
     with_extension (config_path sys (path_join (path_join [] PEERS) peer_id)) ''toml''"

section \<open>Facts\<close>

lemma split_stem_no_dot: "CHR ''.'' \<notin> set f \<Longrightarrow> split_stem f = (f, None)"
  by (simp add: split_stem_def split_on_none)

lemma split_stem_dot:
  assumes "s \<noteq> []" "CHR ''.'' \<notin> set e" "s @ CHR ''.'' # e \<noteq> ''..''"
  shows "split_stem (s @ CHR ''.'' # e) = (s, Some e)"
proof -
  have parts: "split_on CHR ''.'' (s @ CHR ''.'' # e) = split_on CHR ''.'' s @ [e]"
    using assms(2) by (simp add: split_on_join split_on_none)
  have "\<not> (length (split_on CHR ''.'' s) = 1 \<and> hd (split_on CHR ''.'' s) = [])"
  proof
    assume one: "length (split_on CHR ''.'' s) = 1 \<and> hd (split_on CHR ''.'' s) = []"
    then have "split_on CHR ''.'' s = [[]]" by (cases "split_on CHR ''.'' s") auto
    then show False using assms(1) by (cases s) (auto split: if_splits list.splits)
  qed
  then show ?thesis using assms(3) by (auto simp: split_stem_def parts hd_append Let_def)
qed

lemma strip_tail_plain: "plain c \<Longrightarrow> strip_tail (rev c @ r) = rev c @ r"
proof (cases c rule: rev_cases)
  case (snoc c' x)
  assume p: "plain c"
  show ?thesis
  proof (cases c' rule: rev_cases)
    case Nil
    then show ?thesis using p snoc by (cases r) (auto simp: plain_def)
  next
    case (snoc c'' y)
    then show ?thesis using p \<open>c = c' @ [x]\<close> by (auto simp: plain_def)
  qed
qed (simp add: plain_def)

lemma with_extension_join:
  assumes "plain c"
  shows "with_extension (path_join base c) ext = path_join base (fst (split_stem c) @ ''.'' @ ext)"
proof -
  obtain pre where pre: "path_join base c = pre @ c" "pre = [] \<or> (\<exists>d. pre = d @ ''/'')"
    using path_join_pre [OF is_absolute_plain [OF assms], of base] by metis
  have stem: "\<not> is_absolute (fst (split_stem c) @ ''.'' @ ext)"
    using assms is_absolute_plain [OF assms]
    by (cases c) (auto simp: split_stem_def is_absolute_def Let_def take_Cons split: nat.split)
  have same: "path_join base (fst (split_stem c) @ ''.'' @ ext) = pre @ fst (split_stem c) @ ''.'' @ ext"
    using pre(1) stem is_absolute_plain [OF assms] by (auto simp: path_join_def split: if_splits)
  have "strip_tail (rev (pre @ c)) = rev (pre @ c)"
    using strip_tail_plain [OF assms, of "rev pre"] by simp
  then have "with_extension (pre @ c) ext = pre @ fst (split_stem c) @ ''.'' @ ext"
    unfolding with_extension_def file_name_pre [OF pre(2) assms] by (simp only: option.case Let_def) simp
  then show ?thesis unfolding pre(1) same .
qed

lemma plain_APP: "CHR ''/'' \<notin> set s \<Longrightarrow> plain (APP_NAME @ s)"
  by (simp add: plain_def APP_NAME_def)

text \<open>The files of the two configurations, next to each other.\<close>

lemma file_of:
  assumes "project_config_dir sys = Some dir" "CHR ''/'' \<notin> set s" "CHR ''.'' \<notin> set s"
  shows "file_of sys s = path_join (patch sys dir) (APP_NAME @ s @ ''.toml'')"
proof -
  have "CHR ''.'' \<notin> set (APP_NAME @ s)" using assms(3) by (simp add: APP_NAME_def)
  then show ?thesis
    using assms(1) with_extension_join [OF plain_APP [OF assms(2)], of "patch sys dir" "''toml''"]
    by (simp add: file_of_def config_path_def split_stem_no_dot)
qed

lemma file_of_neq:
  assumes "project_config_dir sys = Some dir"
  shows "file_of sys [] \<noteq> file_of sys ''2''"
  by (simp add: file_of [OF assms] path_join_def is_absolute_def APP_NAME_def)

text \<open>The file of a peer, when its id is a plain name.\<close>

lemma peer_path_plain:
  assumes "project_config_dir sys = Some dir" "plain peer_id"
  shows "peer_path sys peer_id = path_join (path_join (patch sys dir) PEERS) (fst (split_stem peer_id) @ ''.toml'')"
proof -
  have assoc: "path_join b (path_join a c) = path_join (path_join b a) c" if "a \<noteq> []" "\<not> is_absolute a" for a b c
    using that by (cases a) (auto simp: path_join_def is_absolute_def)
  have "config_path sys (path_join (path_join [] PEERS) peer_id) = path_join (path_join (patch sys dir) PEERS) peer_id"
    using assms(1) assoc [of PEERS "patch sys dir" peer_id] by (simp add: config_path_def PEERS_def path_join_def is_absolute_def)
  then show ?thesis by (simp add: peer_path_def with_extension_join [OF assms(2)])
qed

lemma path_join_cancel: "\<not> is_absolute x \<Longrightarrow> \<not> is_absolute y \<Longrightarrow> path_join base x = path_join base y \<longleftrightarrow> x = y"
  by (simp add: path_join_def)

lemma stem_relative: "plain c \<Longrightarrow> \<not> is_absolute (fst (split_stem c) @ CHR ''.'' # e)"
  using is_absolute_plain [of c]
  by (cases c) (auto simp: split_stem_def is_absolute_def Let_def take_Cons split: nat.split)

end
