(* ===== verification/Config.thy ===== *)
theory Config imports Config_Paths Net_Util begin

text \<open>
  \<open>libs/hbb_common/src/config.rs\<close>: the settings of a client and of its peers. Two records are kept in
  memory behind locks and written to their files by the setters; the latencies of the rendezvous
  servers are in memory only. Operations run one at a time, as the locks make them.

  The \<open>confy\<close> crate, which reads and writes the files, is the argument \<open>cf\<close> over an abstract disk \<open>'d\<close>;
  failures to load or store are logged and ignored by the code. Random draws, the MAC address,
  generated keys and the iteration order of a hash map are arguments of the operations that use them.
\<close>

section \<open>Settings\<close>

record config =
  cfg_id :: string
  password :: string
  salt :: string
  key_pair :: "bytes \<times> bytes"
  key_confirmed :: bool
  keys_confirmed :: "string \<rightharpoonup> bool"

type_synonym area = "i32 \<times> i32 \<times> i32 \<times> i32"

record config2 =
  remote_id :: string
  win_size :: area
  rendezvous_server :: string
  nat_type :: i32
  serial :: i32
  options :: "string \<rightharpoonup> string"

record peer_info_serde =
  username :: string
  hostname :: string
  platform :: string

record peer_config =
  peer_password :: bytes
  peer_size :: area
  size_ft :: area
  size_pf :: area
  view_style :: string
  image_quality :: string
  custom_image_quality :: "i32 list"
  show_remote_cursor :: bool
  lock_after_session_end :: bool
  privacy_mode :: bool
  port_forwards :: "(i32 \<times> string \<times> i32) list"
  direct_failures :: i32
  disable_audio :: bool
  disable_clipboard :: bool
  peer_options :: "string \<rightharpoonup> string"
  info :: peer_info_serde

definition config_default :: config where
  "config_default =
     \<lparr>cfg_id = [], password = [], salt = [], key_pair = ([], []), key_confirmed = False, keys_confirmed = Map.empty\<rparr>"

definition config2_default :: config2 where
  "config2_default =
     \<lparr>remote_id = [], win_size = (0, 0, 0, 0), rendezvous_server = [], nat_type = 0, serial = 0, options = Map.empty\<rparr>"

definition peer_config_default :: peer_config where
  "peer_config_default =
     \<lparr>peer_password = [], peer_size = (0, 0, 0, 0), size_ft = (0, 0, 0, 0), size_pf = (0, 0, 0, 0), view_style = [],
      image_quality = [], custom_image_quality = [], show_remote_cursor = False, lock_after_session_end = False,
      privacy_mode = False, port_forwards = [], direct_failures = 0, disable_audio = False, disable_clipboard = False,
      peer_options = Map.empty, info = \<lparr>username = [], hostname = [], platform = []\<rparr>\<rparr>"

definition RENDEZVOUS_TIMEOUT :: u64 where "RENDEZVOUS_TIMEOUT = 12000"
definition CONNECT_TIMEOUT :: u64 where "CONNECT_TIMEOUT = 18000"
definition RELAY_PORT :: i32 where "RELAY_PORT = 21117"
definition SERIAL :: i32 where "SERIAL = 0"
definition RENDEZVOUS_PORT :: string where "RENDEZVOUS_PORT = ''21116''"
definition BIND_INTERFACE :: string where "BIND_INTERFACE = ''0.0.0.0''"

definition RENDEZVOUS_SERVERS :: "string list" where
  "RENDEZVOUS_SERVERS = [''rs-sg.rustdesk.com'', ''rs-cn.rustdesk.com'']"

definition CHARS :: "char list" where
  "CHARS = ''23456789abcdefghijkmnpqrstuvwxyz''"

section \<open>Files\<close>

text \<open>\<open>confy\<close>, one pair of operations for each type stored, and \<open>std::fs\<close> on the same disk.\<close>

record 'd confy =
  load1 :: "'d \<Rightarrow> string \<Rightarrow> (string + config) \<times> 'd"
  store1 :: "'d \<Rightarrow> string \<Rightarrow> config \<Rightarrow> (string + unit) \<times> 'd"
  load2 :: "'d \<Rightarrow> string \<Rightarrow> (string + config2) \<times> 'd"
  store2 :: "'d \<Rightarrow> string \<Rightarrow> config2 \<Rightarrow> (string + unit) \<times> 'd"
  load_peer :: "'d \<Rightarrow> string \<Rightarrow> (string + peer_config) \<times> 'd"
  store_peer :: "'d \<Rightarrow> string \<Rightarrow> peer_config \<Rightarrow> (string + unit) \<times> 'd"
  copy_file :: "'d \<Rightarrow> string \<Rightarrow> string \<Rightarrow> 'd"
  unlink :: "'d \<Rightarrow> string \<Rightarrow> 'd"
  list_dir :: "'d \<Rightarrow> string \<Rightarrow> (io_error + string) list option" \<comment> \<open>the paths of the entries\<close>
  is_file :: "'d \<Rightarrow> string \<Rightarrow> bool"
  mtime :: "'d \<Rightarrow> string \<Rightarrow> int option" \<comment> \<open>none when the system cannot tell\<close>

record 'd settings =
  conf :: config
  conf2 :: config2
  online :: "string \<rightharpoonup> i64"
  files :: 'd

definition load_config :: "'d confy \<Rightarrow> sys_env \<Rightarrow> 'd \<Rightarrow> config \<times> 'd" where
  "load_config cf sys d =
     (case load1 cf d (file_of sys []) of (Inr c, d') \<Rightarrow> (c, d') | (Inl _, d') \<Rightarrow> (config_default, d'))"

definition load_config2 :: "'d confy \<Rightarrow> sys_env \<Rightarrow> 'd \<Rightarrow> config2 \<times> 'd" where
  "load_config2 cf sys d =
     (case load2 cf d (file_of sys ''2'') of (Inr c, d') \<Rightarrow> (c, d') | (Inl _, d') \<Rightarrow> (config2_default, d'))"

definition store_config :: "'d confy \<Rightarrow> sys_env \<Rightarrow> 'd settings \<Rightarrow> 'd settings" where
  "store_config cf sys g = g\<lparr>files := snd (store1 cf (files g) (file_of sys []) (conf g))\<rparr>"

definition store_config2 :: "'d confy \<Rightarrow> sys_env \<Rightarrow> 'd settings \<Rightarrow> 'd settings" where
  "store_config2 cf sys g = g\<lparr>files := snd (store2 cf (files g) (file_of sys ''2'') (conf2 g))\<rparr>"

text \<open>The statics, as first use initialises them.\<close>

definition settings_init :: "'d confy \<Rightarrow> sys_env \<Rightarrow> 'd \<Rightarrow> 'd settings" where
  "settings_init cf sys d =
     (case load_config cf sys d of (c, d1) \<Rightarrow>
      case load_config2 cf sys d1 of (c2, d2) \<Rightarrow>
        \<lparr>conf = c, conf2 = c2, online = Map.empty, files = d2\<rparr>)"

text \<open>\<open>str::replace\<close>.\<close>

fun replace_all :: "string \<Rightarrow> string \<Rightarrow> string \<Rightarrow> nat \<Rightarrow> string" where
  "replace_all pat by_s [] skip = []"
| "replace_all pat by_s (c # cs) skip =
     (if 0 < skip then replace_all pat by_s cs (skip - 1)
      else if pat \<noteq> [] \<and> take (length pat) (c # cs) = pat
      then by_s @ replace_all pat by_s cs (length pat - 1)
      else c # replace_all pat by_s cs 0)"

definition import_config :: "'d confy \<Rightarrow> sys_env \<Rightarrow> string \<Rightarrow> 'd settings \<Rightarrow> 'd settings" where
  "import_config cf sys from_file g =
     (let d1 = snd (load_config cf sys (files g));
          d2 = copy_file cf d1 from_file (file_of sys []);
          d3 = copy_file cf d2 (replace_all ''.toml'' ''2.toml'' from_file 0) (file_of sys ''2'')
      in g\<lparr>files := d3\<rparr>)"

definition save_tmp :: "'d confy \<Rightarrow> sys_env \<Rightarrow> 'd settings \<Rightarrow> string \<times> 'd settings" where
  "save_tmp cf sys g =
     (let path = file_of sys ''2'';
          d1 = copy_file cf (files g) path (path @ ''_tmp'');
          path = file_of sys [];
          d2 = copy_file cf d1 path (path @ ''_tmp'')
      in (path @ ''_tmp'', g\<lparr>files := d2\<rparr>))"

section \<open>Identity\<close>

text \<open>Decimal digits, as \<open>to_string\<close> prints an unsigned number.\<close>

fun decimal :: "nat \<Rightarrow> string" where
  "decimal n = (if n < 10 then [char_of (48 + n)] else decimal (n div 10) @ [char_of (48 + n mod 10)])"

declare decimal.simps [simp del]

text \<open>The id made of the last four bytes of the MAC address, 29 bits of it.\<close>

definition get_auto_id :: "bytes option \<Rightarrow> string option" where
  "get_auto_id mac =
     (case mac of
        None \<Rightarrow> None
      | Some ma \<Rightarrow>
          (let n = foldl (\<lambda>n x. or (push_bit 8 n) (ucast x)) (0 :: u32) (drop 2 ma);
               n = and n 0x1FFFFFFF
           in Some (decimal (unat n))))"

definition get_auto_password :: "usize list \<Rightarrow> string" where
  "get_auto_password draws = map (\<lambda>r. CHARS ! (unat r mod length CHARS)) (take 6 draws)"

definition set_id :: "'d confy \<Rightarrow> sys_env \<Rightarrow> string \<Rightarrow> 'd settings \<Rightarrow> 'd settings" where
  "set_id cf sys v g =
     (if v = cfg_id (conf g) then g else store_config cf sys (g\<lparr>conf := (conf g)\<lparr>cfg_id := v\<rparr>\<rparr>))"

definition get_id :: "'d confy \<Rightarrow> sys_env \<Rightarrow> bytes option \<Rightarrow> 'd settings \<Rightarrow> string \<times> 'd settings" where
  "get_id cf sys mac g =
     (if cfg_id (conf g) = [] then
        (case get_auto_id mac of
           Some tmp \<Rightarrow> (tmp, set_id cf sys tmp g)
         | None \<Rightarrow> ([], g))
      else (cfg_id (conf g), g))"

text \<open>\<open>r\<close> is the number drawn from \<open>gen_range(1_000_000_000, 2_000_000_000)\<close>.\<close>

definition update_id :: "'d confy \<Rightarrow> sys_env \<Rightarrow> bytes option \<Rightarrow> nat \<Rightarrow> 'd settings \<Rightarrow> 'd settings" where
  "update_id cf sys mac r g = set_id cf sys (decimal r) (snd (get_id cf sys mac g))"

definition set_password :: "'d confy \<Rightarrow> sys_env \<Rightarrow> string \<Rightarrow> 'd settings \<Rightarrow> 'd settings" where
  "set_password cf sys v g =
     (if v = password (conf g) then g else store_config cf sys (g\<lparr>conf := (conf g)\<lparr>password := v\<rparr>\<rparr>))"

definition get_password :: "'d confy \<Rightarrow> sys_env \<Rightarrow> usize list \<Rightarrow> 'd settings \<Rightarrow> string \<times> 'd settings" where
  "get_password cf sys draws g =
     (if password (conf g) = [] then
        (let p = get_auto_password draws in (p, set_password cf sys p g))
      else (password (conf g), g))"

definition set_salt :: "'d confy \<Rightarrow> sys_env \<Rightarrow> string \<Rightarrow> 'd settings \<Rightarrow> 'd settings" where
  "set_salt cf sys v g =
     (if v = salt (conf g) then g else store_config cf sys (g\<lparr>conf := (conf g)\<lparr>salt := v\<rparr>\<rparr>))"

definition get_salt :: "'d confy \<Rightarrow> sys_env \<Rightarrow> usize list \<Rightarrow> 'd settings \<Rightarrow> string \<times> 'd settings" where
  "get_salt cf sys draws g =
     (if salt (conf g) = [] then
        (let p = get_auto_password draws in (p, set_salt cf sys p g))
      else (salt (conf g), g))"

section \<open>Keys\<close>

definition set_key_confirmed :: "'d confy \<Rightarrow> sys_env \<Rightarrow> bool \<Rightarrow> 'd settings \<Rightarrow> 'd settings" where
  "set_key_confirmed cf sys v g =
     (if key_confirmed (conf g) = v then g
      else
        let c = (conf g)\<lparr>key_confirmed := v\<rparr>;
            c = (if \<not> v then c\<lparr>keys_confirmed := Map.empty\<rparr> else c)
        in store_config cf sys (g\<lparr>conf := c\<rparr>))"

definition get_key_confirmed :: "'d settings \<Rightarrow> bool" where "get_key_confirmed g = key_confirmed (conf g)"

definition get_host_key_confirmed :: "'d settings \<Rightarrow> string \<Rightarrow> bool" where
  "get_host_key_confirmed g host = (keys_confirmed (conf g) host = Some True)"

definition set_host_key_confirmed :: "'d confy \<Rightarrow> sys_env \<Rightarrow> string \<Rightarrow> bool \<Rightarrow> 'd settings \<Rightarrow> 'd settings" where
  "set_host_key_confirmed cf sys host v g =
     (if get_host_key_confirmed g host = v then g
      else store_config cf sys (g\<lparr>conf := (conf g)\<lparr>keys_confirmed := (keys_confirmed (conf g))(host \<mapsto> v)\<rparr>\<rparr>))"

definition set_key_pair :: "'d confy \<Rightarrow> sys_env \<Rightarrow> bytes \<times> bytes \<Rightarrow> 'd settings \<Rightarrow> 'd settings" where
  "set_key_pair cf sys pair g = store_config cf sys (g\<lparr>conf := (conf g)\<lparr>key_pair := pair\<rparr>\<rparr>)"

text \<open>\<open>gen\<close> is what \<open>gen_keypair\<close> would give: the public and the secret key.\<close>

definition get_key_pair :: "'d confy \<Rightarrow> sys_env \<Rightarrow> bytes \<times> bytes \<Rightarrow> 'd settings \<Rightarrow> (bytes \<times> bytes) \<times> 'd settings" where
  "get_key_pair cf sys gen g =
     (let g1 = (if fst (key_pair (conf g)) = [] then
                  (case gen of (pk, sk) \<Rightarrow> store_config cf sys (g\<lparr>conf := (conf g)\<lparr>key_pair := (sk, pk)\<rparr>\<rparr>))
                else g)
      in (key_pair (conf g1), g1))"

section \<open>The second file\<close>

definition set_nat_type :: "'d confy \<Rightarrow> sys_env \<Rightarrow> i32 \<Rightarrow> 'd settings \<Rightarrow> 'd settings" where
  "set_nat_type cf sys v g =
     (if v = nat_type (conf2 g) then g else store_config2 cf sys (g\<lparr>conf2 := (conf2 g)\<lparr>nat_type := v\<rparr>\<rparr>))"

definition get_nat_type :: "'d settings \<Rightarrow> i32" where "get_nat_type g = nat_type (conf2 g)"

definition set_serial :: "'d confy \<Rightarrow> sys_env \<Rightarrow> i32 \<Rightarrow> 'd settings \<Rightarrow> 'd settings" where
  "set_serial cf sys v g =
     (if v = serial (conf2 g) then g else store_config2 cf sys (g\<lparr>conf2 := (conf2 g)\<lparr>serial := v\<rparr>\<rparr>))"

definition get_serial :: "'d settings \<Rightarrow> i32" where
  "get_serial g = (if sint (serial (conf2 g)) \<le> sint SERIAL then SERIAL else serial (conf2 g))"

definition set_remote_id :: "'d confy \<Rightarrow> sys_env \<Rightarrow> string \<Rightarrow> 'd settings \<Rightarrow> 'd settings" where
  "set_remote_id cf sys v g =
     (if v = remote_id (conf2 g) then g else store_config2 cf sys (g\<lparr>conf2 := (conf2 g)\<lparr>remote_id := v\<rparr>\<rparr>))"

definition get_remote_id :: "'d settings \<Rightarrow> string" where "get_remote_id g = remote_id (conf2 g)"

definition get_size :: "'d settings \<Rightarrow> area" where "get_size g = win_size (conf2 g)"

definition set_size :: "'d confy \<Rightarrow> sys_env \<Rightarrow> area \<Rightarrow> 'd settings \<Rightarrow> 'd settings" where
  "set_size cf sys v g =
     (case v of (x, y, w, h) \<Rightarrow>
        if v = win_size (conf2 g) \<or> sint w < 300 \<or> sint h < 300 then g
        else store_config2 cf sys (g\<lparr>conf2 := (conf2 g)\<lparr>win_size := v\<rparr>\<rparr>))"

definition set_options :: "'d confy \<Rightarrow> sys_env \<Rightarrow> (string \<rightharpoonup> string) \<Rightarrow> 'd settings \<Rightarrow> 'd settings" where
  "set_options cf sys v g = store_config2 cf sys (g\<lparr>conf2 := (conf2 g)\<lparr>options := v\<rparr>\<rparr>)"

definition get_options :: "'d settings \<Rightarrow> (string \<rightharpoonup> string)" where "get_options g = options (conf2 g)"

definition get_option :: "'d settings \<Rightarrow> string \<Rightarrow> string" where
  "get_option g k = (case options (conf2 g) k of Some v \<Rightarrow> v | None \<Rightarrow> [])"

definition set_option :: "'d confy \<Rightarrow> sys_env \<Rightarrow> string \<Rightarrow> string \<Rightarrow> 'd settings \<Rightarrow> 'd settings" where
  "set_option cf sys k v g =
     (let c = (if k = ''custom-rendezvous-server'' then (conf2 g)\<lparr>rendezvous_server := []\<rparr> else conf2 g);
          g1 = g\<lparr>conf2 := c\<rparr>;
          v2 = (if v = [] then None else Some v)
      in if v2 \<noteq> options c k then
           store_config2 cf sys (g1\<lparr>conf2 := c\<lparr>options := (options c)(k := v2)\<rparr>\<rparr>)
         else g1)"

section \<open>Rendezvous servers\<close>

definition reset_online :: "'d settings \<Rightarrow> 'd settings" where
  "reset_online g = g\<lparr>online := Map.empty\<rparr>"

text \<open>The loop over the table, in the order \<open>entries\<close> lists it: the least positive delay so far and its host.\<close>

fun pick_host :: "(string \<times> i64) list \<Rightarrow> string \<times> i64 \<Rightarrow> string \<times> i64" where
  "pick_host [] best = best"
| "pick_host ((tmp_host, tmp_delay) # rest) (host, delay) =
     (if 0 < sint tmp_delay \<and> sint tmp_delay < sint delay then pick_host rest (tmp_host, tmp_delay)
      else pick_host rest (host, delay))"

definition I64_MAX :: i64 where "I64_MAX = 0x7FFFFFFFFFFFFFFF"

definition update_latency :: "'d confy \<Rightarrow> sys_env \<Rightarrow> ((string \<rightharpoonup> i64) \<Rightarrow> (string \<times> i64) list) \<Rightarrow> string \<Rightarrow> i64 \<Rightarrow>
    'd settings \<Rightarrow> 'd settings" where
  "update_latency cf sys entries host latency g =
     (let m = (online g)(host \<mapsto> latency);
          g1 = g\<lparr>online := m\<rparr>;
          best = fst (pick_host (entries m) ([], I64_MAX))
      in if best \<noteq> [] \<and> best \<noteq> rendezvous_server (conf2 g)
         then store_config2 cf sys (g1\<lparr>conf2 := (conf2 g)\<lparr>rendezvous_server := best\<rparr>\<rparr>)
         else g1)"

definition get_any_listen_addr :: socket_addr where
  "get_any_listen_addr = V4 (0, 0, 0, 0) 0"

definition get_rendezvous_servers :: "'d settings \<Rightarrow> string list" where
  "get_rendezvous_servers g =
     (let s = get_option g ''custom-rendezvous-server'' in
      if s \<noteq> [] then [s]
      else
        let serial_obsolute = (sint SERIAL < sint (serial (conf2 g)));
            ss = filter (\<lambda>x. CHR ''.'' \<in> set x) (split_on CHR '','' (get_option g ''rendezvous-servers''))
        in if serial_obsolute \<and> ss \<noteq> [] then ss else RENDEZVOUS_SERVERS)"

definition rendezvous_name :: "'d settings \<Rightarrow> string" where
  "rendezvous_name g =
     (let s = get_option g ''custom-rendezvous-server'';
          s = (if s = [] then rendezvous_server (conf2 g) else s);
          s = (if s = [] then (case get_rendezvous_servers g of [] \<Rightarrow> [] | x # _ \<Rightarrow> x) else s)
      in if CHR '':'' \<in> set s then s else s @ '':'' @ RENDEZVOUS_PORT)"

definition get_rendezvous_server :: "(string \<Rightarrow> io_error + socket_addr list) \<Rightarrow> 'd settings \<Rightarrow> socket_addr" where
  "get_rendezvous_server dns g =
     (case to_socket_addr dns (rendezvous_name g) of
        Inr addr \<Rightarrow> addr
      | Inl _ \<Rightarrow> get_any_listen_addr)"

section \<open>Peers\<close>

definition peer_load :: "'d confy \<Rightarrow> sys_env \<Rightarrow> string \<Rightarrow> 'd \<Rightarrow> peer_config \<times> 'd" where
  "peer_load cf sys peer_id d =
     (case load_peer cf d (peer_path sys peer_id) of
        (Inr c, d') \<Rightarrow> (c, d')
      | (Inl _, d') \<Rightarrow> (peer_config_default, d'))"

definition peer_store :: "'d confy \<Rightarrow> sys_env \<Rightarrow> peer_config \<Rightarrow> string \<Rightarrow> 'd \<Rightarrow> 'd" where
  "peer_store cf sys c peer_id d = snd (store_peer cf d (peer_path sys peer_id) c)"

definition peer_remove :: "'d confy \<Rightarrow> sys_env \<Rightarrow> string \<Rightarrow> 'd \<Rightarrow> 'd" where
  "peer_remove cf sys peer_id d = unlink cf d (peer_path sys peer_id)"

text \<open>One path of the peers' directory: its id, time and info; a file without a platform is removed.\<close>

definition peer_at :: "'d confy \<Rightarrow> sys_env \<Rightarrow> string \<Rightarrow> 'd \<Rightarrow> (string \<times> int \<times> peer_info_serde) \<times> 'd" where
  "peer_at cf sys p d =
     (let t = (case mtime cf d p of Some t \<Rightarrow> t | None \<Rightarrow> 0);
          peer_id = (case file_stem p of Some s \<Rightarrow> s | None \<Rightarrow> [])
      in case peer_load cf sys peer_id d of
           (c, d1) \<Rightarrow>
             ((peer_id, t, info c), if platform (info c) = [] then unlink cf d1 p else d1))"

fun peers_at :: "'d confy \<Rightarrow> sys_env \<Rightarrow> string list \<Rightarrow> 'd \<Rightarrow> (string \<times> int \<times> peer_info_serde) list \<times> 'd" where
  "peers_at cf sys [] d = ([], d)"
| "peers_at cf sys (p # ps) d =
     (if is_file cf d p \<and> extension p = Some ''toml'' then
        (case peer_at cf sys p d of
           (x, d1) \<Rightarrow>
             (case peers_at cf sys ps d1 of
                (xs, d2) \<Rightarrow> (if platform (snd (snd x)) \<noteq> [] then x # xs else xs, d2)))
      else peers_at cf sys ps d)"

text \<open>
  The list of known peers, latest first. The sort is unstable: equal times come in any order, so the entries
  are arranged by some permutation \<open>arrange\<close> before a stable sort. They are looked at one after the other,
  as the lazy iterator does.
\<close>

definition peers :: "'d confy \<Rightarrow> sys_env \<Rightarrow>
    ((string \<times> int \<times> peer_info_serde) list \<Rightarrow> (string \<times> int \<times> peer_info_serde) list) \<Rightarrow>
    'd \<Rightarrow> (string \<times> int \<times> peer_info_serde) list \<times> 'd" where
  "peers cf sys arrange d =
     (case list_dir cf d (config_path sys PEERS) of
        None \<Rightarrow> ([], d)
      | Some entries \<Rightarrow>
          if list_all (\<lambda>e. \<not> isl e) entries then
            (case peers_at cf sys (map projr entries) d of
               (ps, d') \<Rightarrow> (sort_key (\<lambda>(_, t, _). - t) (arrange ps), d'))
          else ([], d))"

end
