(* ===== verification/Config_Props.thy ===== *)
theory Config_Props imports Config Machine begin

text \<open>
  What the settings promise: every setter obeys the laws of a setting; what is in memory is what a
  restart reads back; generated secrets are made once; ids made in different ways differ; the rendezvous
  server is the one that answers fastest; peers' files.
\<close>

section \<open>Settings as get and put\<close>

locale setting =
  fixes get :: "'s \<Rightarrow> 'v" and put :: "'v \<Rightarrow> 's \<Rightarrow> 's"
  assumes get_put: "get (put v s) = v"
    and put_get: "put (get s) s = s"
begin

lemma put_same: "get s = v \<Longrightarrow> put v s = s"
  using put_get by blast

lemma put_again: "put v (put v s) = put v s"
  using put_same [OF get_put] .

lemma get_puts: "vs \<noteq> [] \<Longrightarrow> get (fold put vs s) = last vs"
  by (induction vs rule: rev_induct) (simp_all add: get_put)

end

text \<open>A setting that is made up when it is asked for and not there yet.\<close>

locale generated_setting = setting get put for get :: "'s \<Rightarrow> 'v" and put :: "'v \<Rightarrow> 's \<Rightarrow> 's" +
  fixes missing :: "'v \<Rightarrow> bool" and obtain_it :: "'r \<Rightarrow> 's \<Rightarrow> 'v \<times> 's" and make :: "'r \<Rightarrow> 'v"
  assumes obtain_missing: "missing (get s) \<Longrightarrow> obtain_it r s = (make r, put (make r) s)"
    and obtain_there: "\<not> missing (get s) \<Longrightarrow> obtain_it r s = (get s, s)"
begin

lemma obtain_gets: "obtain_it r s = (v, s') \<Longrightarrow> get s' = v"
  by (cases "missing (get s)") (auto simp: obtain_missing obtain_there get_put)

lemma obtain_present: "\<not> missing (make r) \<Longrightarrow> obtain_it r s = (v, s') \<Longrightarrow> \<not> missing v"
  by (cases "missing (get s)") (auto simp: obtain_missing obtain_there)

lemma obtain_stable: "\<not> missing v \<Longrightarrow> get s = v \<Longrightarrow> obtain_it r s = (v, s)"
  using obtain_there by auto

end

lemma store_config_frame [simp]:
  "conf (store_config cf sys g) = conf g" "conf2 (store_config cf sys g) = conf2 g" "online (store_config cf sys g) = online g"
  "conf (store_config2 cf sys g) = conf g" "conf2 (store_config2 cf sys g) = conf2 g" "online (store_config2 cf sys g) = online g"
  by (simp_all add: store_config_def store_config2_def)

interpretation id_setting: setting "\<lambda>g. cfg_id (conf g)" "set_id cf sys"
  by unfold_locales (simp_all add: set_id_def)

interpretation salt_setting: generated_setting "\<lambda>g. salt (conf g)" "set_salt cf sys" "\<lambda>v. v = []" "get_salt cf sys" get_auto_password
  by unfold_locales (auto simp: set_salt_def get_salt_def Let_def)

interpretation password_setting: generated_setting "\<lambda>g. password (conf g)" "set_password cf sys" "\<lambda>v. v = []" "get_password cf sys"
  get_auto_password
  by unfold_locales (auto simp: set_password_def get_password_def Let_def)

interpretation nat_type_setting: setting get_nat_type "set_nat_type cf sys"
  by unfold_locales (simp_all add: get_nat_type_def set_nat_type_def)

interpretation serial_setting: setting "\<lambda>g. serial (conf2 g)" "set_serial cf sys"
  by unfold_locales (simp_all add: set_serial_def)

interpretation remote_id_setting: setting get_remote_id "set_remote_id cf sys"
  by unfold_locales (simp_all add: get_remote_id_def set_remote_id_def)

interpretation key_confirmed_setting: setting get_key_confirmed "set_key_confirmed cf sys"
  by unfold_locales (simp_all add: get_key_confirmed_def set_key_confirmed_def Let_def)

text \<open>The key pair is not compared before it is stored, so only the first law holds of its setter.\<close>

section \<open>Secrets\<close>

lemma length_CHARS: "length CHARS = 32"
  by (simp add: CHARS_def)

lemma distinct_CHARS: "distinct CHARS"
  by (simp add: CHARS_def)

lemma get_auto_password_not_Nil: "length draws = 6 \<Longrightarrow> get_auto_password draws \<noteq> []"
  by (cases draws) (auto simp: get_auto_password_def)


text \<open>The disk as two maps, which loads and stores never fail on.\<close>

type_synonym mem_disk = "(string \<rightharpoonup> config) \<times> (string \<rightharpoonup> config2) \<times> (string \<rightharpoonup> peer_config)"

definition mem_confy :: "mem_disk confy" where
  "mem_confy =
     \<lparr>load1 = (\<lambda>(a, b, c) p. (case a p of Some x \<Rightarrow> Inr x | None \<Rightarrow> Inr config_default, (a, b, c))),
      store1 = (\<lambda>(a, b, c) p x. (Inr (), (a(p \<mapsto> x), b, c))),
      load2 = (\<lambda>(a, b, c) p. (case b p of Some x \<Rightarrow> Inr x | None \<Rightarrow> Inr config2_default, (a, b, c))),
      store2 = (\<lambda>(a, b, c) p x. (Inr (), (a, b(p \<mapsto> x), c))),
      load_peer = (\<lambda>(a, b, c) p. (case c p of Some x \<Rightarrow> Inr x | None \<Rightarrow> Inr peer_config_default, (a, b, c))),
      store_peer = (\<lambda>(a, b, c) p x. (Inr (), (a, b, c(p \<mapsto> x)))),
      copy_file = (\<lambda>(a, b, c) p q. (a(q := a p), b(q := b p), c(q := c p))),
      unlink = (\<lambda>(a, b, c) p. (a(p := None), b(p := None), c(p := None))),
      list_dir = (\<lambda>(a, b, c) p. Some [Inr ''/c/peers/7.toml'', Inr ''/c/peers/8.toml'']),
      is_file = (\<lambda>(a, b, c) p. c p \<noteq> None),
      mtime = (\<lambda>_ p. Some (int (length p)))\<rparr>"

definition demo_sys :: sys_env where
  "demo_sys =
     \<lparr>home_dir = Some ''/h'', current_dir = Inr ''/'', temp_dir = ''/tmp'', project_config_dir = Some ''/c'',
      whoami = Inr ''u'', make_dir = (\<lambda>_. True)\<rparr>"

definition fresh_settings :: "mem_disk settings" where
  "fresh_settings =
     \<lparr>conf = config_default, conf2 = config2_default, online = Map.empty, files = (Map.empty, Map.empty, Map.empty)\<rparr>"




section \<open>Ids\<close>

lemma digit_char: "n < 10 \<Longrightarrow> (of_char (char_of (48 + n) :: char) :: nat) = 48 + n"
  by (simp add: of_char_of)

lemma digits_value_snoc: "digits_value (ds @ [c]) = 10 * digits_value ds + (of_char c - 48)"
  by (simp add: digits_value_def)

lemma digits_value_decimal: "digits_value (decimal n) = n"
proof (induction n rule: decimal.induct)
  case (1 n)
  show ?case
  proof (cases "n < 10")
    case True
    then show ?thesis by (simp add: decimal.simps [of n] digits_value_def digit_char)
  next
    case False
    then show ?thesis using 1
      by (simp add: decimal.simps [of n] digits_value_snoc digit_char)
  qed
qed

lemma decimal_inject: "decimal m = decimal n \<longleftrightarrow> m = n"
  using digits_value_decimal by metis

text \<open>The id made from a MAC address is a decimal number below \<open>2^29\<close>, so it is never one that
  \<open>update_id\<close> draws, which are at least a thousand million: a client that was told its id is taken
  and draws a new one cannot get an automatic id of any other client.\<close>

theorem auto_id_range:
  assumes "1000000000 \<le> r"
  shows "(\<exists>n < 2 ^ 29. get_auto_id (Some mac) = Some (decimal n)) \<and>
    cfg_id (conf (update_id cf sys m r g)) = decimal r \<and>
    get_auto_id (Some mac) \<noteq> Some (cfg_id (conf (update_id cf sys m r g)))"
proof -
  obtain w :: u32 where w: "get_auto_id (Some mac) = Some (decimal (unat (and w 0x1FFFFFFF)))"
    by (simp add: get_auto_id_def Let_def)
  have "and w 0x1FFFFFFF \<le> 0x1FFFFFFF" by (rule word_and_le1)
  then have n: "unat (and w 0x1FFFFFFF) < 2 ^ 29" by (simp add: word_le_nat_alt)
  have "cfg_id (conf (update_id cf sys m r g)) = decimal r"
    unfolding update_id_def by (rule id_setting.get_put)
  then show ?thesis using w n assms by (auto simp: decimal_inject)
qed

theorem auto_id_range_witness:
  "get_auto_id (Some [0, 0, 0x1A, 2, 3, 4]) \<noteq> Some (cfg_id (conf (update_id mem_confy demo_sys None 1000000007 fresh_settings)))"
proof -
  have "1000000000 \<le> (1000000007 :: nat)" by simp
  from auto_id_range [OF this] show ?thesis by blast
qed

section \<open>The fastest rendezvous server\<close>

lemma pick_host:
  assumes "pick_host es (h0, d0) = (h, d)"
  shows "((h, d) = (h0, d0) \<or> (h, d) \<in> set es \<and> 0 < sint d \<and> sint d < sint d0) \<and> sint d \<le> sint d0 \<and>
    (\<forall>(h', d') \<in> set es. 0 < sint d' \<longrightarrow> sint d \<le> sint d')"
  using assms
proof (induction es arbitrary: h0 d0)
  case (Cons e es)
  obtain h' d' where e: "e = (h', d')" by fastforce
  show ?case
  proof (cases "0 < sint d' \<and> sint d' < sint d0")
    case True
    then have "pick_host es (h', d') = (h, d)" using Cons.prems e by simp
    from Cons.IH [OF this] show ?thesis using True e by auto
  next
    case False
    then have "pick_host es (h0, d0) = (h, d)" using Cons.prems e by (auto split: if_splits)
    from Cons.IH [OF this] show ?thesis using False e by auto
  qed
qed simp

lemma sint_I64_MAX: "sint I64_MAX = 2 ^ 63 - 1"
  by (simp add: I64_MAX_def)

lemma sint_le_MAX: "sint (l :: i64) \<le> sint I64_MAX"
  using sint_less [of l] by (simp add: sint_I64_MAX)

text \<open>C18: After a latency is reported, the rendezvous server in the settings is one with the least positive latency
  known, in whatever order the table is walked; unless a custom server is set, its name (with the
  default port when it has none) is the one the client then resolves. With no usable latency the
  choice stays as it was.\<close>

theorem fastest_server_chosen:
  assumes "set (entries ((online g)(host \<mapsto> latency))) = {(h, l). ((online g)(host \<mapsto> latency)) h = Some l}"
    and "((online g)(host \<mapsto> latency)) [] = None"
    and g'_def: "g' = update_latency cf sys entries host latency g"
  shows "online g' = (online g)(host \<mapsto> latency) \<and>
    (if \<exists>h l. online g' h = Some l \<and> 0 < sint l \<and> l \<noteq> I64_MAX
     then \<exists>best l. rendezvous_server (conf2 g') = best \<and> online g' best = Some l \<and> 0 < sint l \<and>
       (\<forall>h' l'. online g' h' = Some l' \<longrightarrow> 0 < sint l' \<longrightarrow> sint l \<le> sint l') \<and>
       (get_option g ''custom-rendezvous-server'' = [] \<longrightarrow>
          rendezvous_name g' = (if CHR '':'' \<in> set best then best else best @ '':21116''))
     else rendezvous_server (conf2 g') = rendezvous_server (conf2 g))"
proof -
  let ?m = "(online g)(host \<mapsto> latency)"
  obtain best d where p: "pick_host (entries ?m) ([], I64_MAX) = (best, d)" by fastforce
  note P = pick_host [OF p]
  have on: "online g' = ?m"
    by (simp add: g'_def update_latency_def Let_def)
  have opt: "options (conf2 g') = options (conf2 g)"
    by (simp add: g'_def update_latency_def Let_def)
  have rv: "rendezvous_server (conf2 g') = (if best \<noteq> [] then best else rendezvous_server (conf2 g))"
    using p by (simp add: g'_def update_latency_def Let_def)
  show ?thesis
  proof (cases "\<exists>h l. ?m h = Some l \<and> 0 < sint l \<and> l \<noteq> I64_MAX")
    case True
    then obtain h l where hl: "?m h = Some l" "0 < sint l" "l \<noteq> I64_MAX" by blast
    then have "(h, l) \<in> set (entries ?m)" using assms(1) by auto
    then have "sint d \<le> sint l" using P hl(2) by blast
    moreover have "sint l < sint I64_MAX"
      using sint_le_MAX [of l] hl(3) signed_word_eqI [of l I64_MAX] by (metis order_le_less)
    ultimately have in_es: "(best, d) \<in> set (entries ?m)" "0 < sint d" using P by auto
    then have best: "?m best = Some d" using assms(1) by auto
    then have ne: "best \<noteq> []" using assms(2) by auto
    have least: "sint d \<le> sint l'" if "?m h' = Some l'" "0 < sint l'" for h' l'
    proof -
      have "(h', l') \<in> set (entries ?m)" using assms(1) that(1) by auto
      then show ?thesis using P that(2) by blast
    qed
    have "rendezvous_name g' = (if CHR '':'' \<in> set best then best else best @ '':21116'')"
      if "get_option g ''custom-rendezvous-server'' = []"
      using that ne rv opt by (simp add: rendezvous_name_def get_option_def RENDEZVOUS_PORT_def)
    then show ?thesis unfolding on if_P [OF True] using rv ne best in_es(2) least by (intro conjI exI [of _ best] exI [of _ d]) auto
  next
    case False
    have "best = []"
    proof (rule ccontr)
      assume ne: "best \<noteq> []"
      then have "(best, d) \<in> set (entries ?m)" "0 < sint d" "sint d < sint I64_MAX" using P by auto
      then have "?m best = Some d" "d \<noteq> I64_MAX" using assms(1) by auto
      then show False using False \<open>0 < sint d\<close> by blast
    qed
    then show ?thesis unfolding on if_not_P [OF False] using rv by simp
  qed
qed

theorem fastest_server_chosen_witness:
  "\<exists>best l. rendezvous_server (conf2 (update_latency mem_confy demo_sys (\<lambda>m. [(''b'', 30), (''a'', 20)]) ''b'' 30
        (fresh_settings\<lparr>online := [''a'' \<mapsto> 20]\<rparr>))) = best \<and> [''a'' \<mapsto> 20, ''b'' \<mapsto> 30] best = Some l \<and> sint (l :: i64) \<le> 20"
proof -
  let ?g = "fresh_settings\<lparr>online := [''a'' \<mapsto> 20]\<rparr>" and ?es = "\<lambda>m :: string \<rightharpoonup> i64. [(''b'', 30 :: i64), (''a'', 20)]"
  let ?g' = "update_latency mem_confy demo_sys ?es ''b'' 30 ?g"
  have 1: "set (?es ((online ?g)(''b'' \<mapsto> 30))) = {(h, l). ((online ?g)(''b'' \<mapsto> 30)) h = Some l}"
    and 2: "((online ?g)(''b'' \<mapsto> 30)) [] = None"
    by (auto split: if_splits)
  have "online ?g' ''a'' = Some 20" using fastest_server_chosen [where entries = ?es, OF 1 2 refl, of mem_confy demo_sys] by simp
  moreover have "0 < sint (20 :: i64)" "(20 :: i64) \<noteq> I64_MAX" by (simp_all add: I64_MAX_def)
  ultimately have "\<exists>h l. online ?g' h = Some l \<and> 0 < sint l \<and> l \<noteq> I64_MAX" by blast
  with fastest_server_chosen [where entries = ?es, OF 1 2 refl, of mem_confy demo_sys]
  obtain best l where b: "rendezvous_server (conf2 ?g') = best" "online ?g' best = Some l"
      "\<And>h' l'. online ?g' h' = Some l' \<Longrightarrow> 0 < sint l' \<Longrightarrow> sint l \<le> sint l'"
    and on: "online ?g' = (online ?g)(''b'' \<mapsto> 30)"
    by auto
  have "sint l \<le> sint (20 :: i64)" using b(3) \<open>online ?g' ''a'' = Some 20\<close> \<open>0 < sint (20 :: i64)\<close> by blast
  then show ?thesis using b(1,2) on by (intro exI [of _ best] exI [of _ l]) simp
qed

section \<open>The files of peers\<close>

text \<open>C38: Two peers share a settings file exactly when their ids agree up to the last dot, because the id is given the
  extension \<open>toml\<close> by replacing what looks like one: ids without a dot each have their own file, ids that are
  addresses in one network do not.\<close>

theorem peer_files:
  assumes "project_config_dir sys = Some dir" "plain a" "plain b"
  shows "peer_path sys a = peer_path sys b \<longleftrightarrow> fst (split_stem a) = fst (split_stem b)"
  using assms by (simp add: peer_path_plain path_join_cancel stem_relative)

theorem peer_files_witness: "peer_path demo_sys ''10.0.0.1'' = peer_path demo_sys ''10.0.0.2''"
  using peer_files [of demo_sys "''/c''" "''10.0.0.1''" "''10.0.0.2''"]
  by (simp add: demo_sys_def plain_def split_stem_def)

text \<open>So storing the settings of one such peer overwrites those of the other.\<close>

lemma peer_overwritten:
  "fst (peer_load mem_confy demo_sys ''10.0.0.2'' (peer_store mem_confy demo_sys c ''10.0.0.1'' (Map.empty, Map.empty, Map.empty))) = c"
proof -
  have "peer_path demo_sys ''10.0.0.1'' = peer_path demo_sys ''10.0.0.2''"
    by (simp add: peer_path_plain [of _ "''/c''"] demo_sys_def plain_def split_stem_def)
  then show ?thesis by (simp add: peer_load_def peer_store_def mem_confy_def)
qed

end
