(* ===== verification/Config_Durable.thy ===== *)
theory Config_Durable imports Config_Props begin

text \<open>
  The settings as a machine of operations, and durability: what is in memory is what the next start
  reads from the files.
\<close>

section \<open>Operations\<close>

datatype config_op =
    SetId string | GetId "bytes option" | UpdateId "bytes option" nat
  | SetPassword string | GetPassword "usize list" | SetSalt string | GetSalt "usize list"
  | SetKeyConfirmed bool | SetHostKeyConfirmed string bool | SetKeyPair "bytes \<times> bytes" | GetKeyPair "bytes \<times> bytes"
  | SetNatType i32 | SetSerial i32 | SetRemoteId string | SetSize area
  | SetOptions "string \<rightharpoonup> string" | SetOption string string
  | UpdateLatency string i64 | ResetOnline

fun config_run :: "'d confy \<Rightarrow> sys_env \<Rightarrow> ((string \<rightharpoonup> i64) \<Rightarrow> (string \<times> i64) list) \<Rightarrow> config_op \<Rightarrow> 'd settings \<Rightarrow> 'd settings" where
  "config_run cf sys es (SetId v) g = set_id cf sys v g"
| "config_run cf sys es (GetId mac) g = snd (get_id cf sys mac g)"
| "config_run cf sys es (UpdateId mac r) g = update_id cf sys mac r g"
| "config_run cf sys es (SetPassword v) g = set_password cf sys v g"
| "config_run cf sys es (GetPassword r) g = snd (get_password cf sys r g)"
| "config_run cf sys es (SetSalt v) g = set_salt cf sys v g"
| "config_run cf sys es (GetSalt r) g = snd (get_salt cf sys r g)"
| "config_run cf sys es (SetKeyConfirmed v) g = set_key_confirmed cf sys v g"
| "config_run cf sys es (SetHostKeyConfirmed h v) g = set_host_key_confirmed cf sys h v g"
| "config_run cf sys es (SetKeyPair p) g = set_key_pair cf sys p g"
| "config_run cf sys es (GetKeyPair gen) g = snd (get_key_pair cf sys gen g)"
| "config_run cf sys es (SetNatType v) g = set_nat_type cf sys v g"
| "config_run cf sys es (SetSerial v) g = set_serial cf sys v g"
| "config_run cf sys es (SetRemoteId v) g = set_remote_id cf sys v g"
| "config_run cf sys es (SetSize v) g = set_size cf sys v g"
| "config_run cf sys es (SetOptions v) g = set_options cf sys v g"
| "config_run cf sys es (SetOption k v) g = set_option cf sys k v g"
| "config_run cf sys es (UpdateLatency h l) g = update_latency cf sys es h l g"
| "config_run cf sys es ResetOnline g = reset_online g"

text \<open>As a machine: every operation is possible, and nothing is output.\<close>

definition config_step :: "'d confy \<Rightarrow> sys_env \<Rightarrow> ((string \<rightharpoonup> i64) \<Rightarrow> (string \<times> i64) list) \<Rightarrow> 'd settings \<Rightarrow> config_op \<Rightarrow>
    ('d settings \<times> unit list) option" where
  "config_step cf sys es g oper = Some (config_run cf sys es oper g, [])"

lemma run_config_step:
  "run_machine (config_step cf sys es) g ops = Some (fold (config_run cf sys es) ops g, [])"
  by (induction ops arbitrary: g) (simp_all add: config_step_def run_machine.simps(2))

section \<open>A disk that does not fail\<close>

text \<open>
  What is documented of \<open>confy\<close>: what has been stored at a path is loaded from it; loading does not
  change what is loaded, and storing one file does not change another.
\<close>

definition reliable :: "'d confy \<Rightarrow> bool" where
  "reliable cf \<longleftrightarrow>
     (\<forall>d p c. fst (load1 cf (snd (store1 cf d p c)) p) = Inr c) \<and>
     (\<forall>d p c. fst (load2 cf (snd (store2 cf d p c)) p) = Inr c) \<and>
     (\<forall>d p q c. p \<noteq> q \<longrightarrow> fst (load1 cf (snd (store2 cf d q c)) p) = fst (load1 cf d p)) \<and>
     (\<forall>d p q c. p \<noteq> q \<longrightarrow> fst (load2 cf (snd (store1 cf d q c)) p) = fst (load2 cf d p)) \<and>
     (\<forall>d p q. fst (load2 cf (snd (load1 cf d q)) p) = fst (load2 cf d p))"

lemma mem_confy_reliable: "reliable mem_confy"
  by (auto simp: reliable_def mem_confy_def split: option.split)

text \<open>Memory and files agree.\<close>

definition synced :: "'d confy \<Rightarrow> sys_env \<Rightarrow> 'd settings \<Rightarrow> bool" where
  "synced cf sys g \<longleftrightarrow>
     fst (load1 cf (files g) (file_of sys [])) = Inr (conf g) \<and>
     fst (load2 cf (files g) (file_of sys ''2'')) = Inr (conf2 g)"

definition agree1 :: "'d confy \<Rightarrow> sys_env \<Rightarrow> 'd settings \<Rightarrow> bool" where
  "agree1 cf sys g \<longleftrightarrow> fst (load1 cf (files g) (file_of sys [])) = Inr (conf g)"

definition agree2 :: "'d confy \<Rightarrow> sys_env \<Rightarrow> 'd settings \<Rightarrow> bool" where
  "agree2 cf sys g \<longleftrightarrow> fst (load2 cf (files g) (file_of sys ''2'')) = Inr (conf2 g)"

lemma synced_agree: "synced cf sys g \<longleftrightarrow> agree1 cf sys g \<and> agree2 cf sys g"
  by (simp add: synced_def agree1_def agree2_def)

lemma synced_store1:
  assumes "reliable cf" "project_config_dir sys = Some dir" "agree2 cf sys g"
  shows "synced cf sys (store_config cf sys g)"
  using assms file_of_neq [OF assms(2)] by (simp add: synced_def agree2_def store_config_def reliable_def)

lemma synced_store2:
  assumes "reliable cf" "project_config_dir sys = Some dir" "agree1 cf sys g"
  shows "synced cf sys (store_config2 cf sys g)"
  using assms file_of_neq [OF assms(2)] by (simp add: synced_def agree1_def store_config2_def reliable_def)

lemma agree_frame [simp]:
  "agree1 cf sys (g\<lparr>conf2 := c2\<rparr>) = agree1 cf sys g" "agree2 cf sys (g\<lparr>conf := c\<rparr>) = agree2 cf sys g"
  "agree1 cf sys (g\<lparr>online := m\<rparr>) = agree1 cf sys g" "agree2 cf sys (g\<lparr>online := m\<rparr>) = agree2 cf sys g"
  by (simp_all add: agree1_def agree2_def)

text \<open>The operations that may forget to store: clearing the measured server without changing the option.\<close>

fun safe_op :: "config_op \<Rightarrow> bool" where
  "safe_op (SetOption k v) = (k \<noteq> ''custom-rendezvous-server'')"
| "safe_op _ = True"

lemmas config_ops = set_id_def get_id_def update_id_def set_password_def get_password_def set_salt_def get_salt_def
  set_key_confirmed_def set_host_key_confirmed_def set_key_pair_def get_key_pair_def set_nat_type_def set_serial_def
  set_remote_id_def set_size_def set_options_def set_option_def update_latency_def reset_online_def Let_def

lemma config_run_synced:
  assumes "reliable cf" "project_config_dir sys = Some dir" "safe_op oper" "synced cf sys g"
  shows "synced cf sys (config_run cf sys es oper g)"
proof -
  note s = synced_store1 [OF assms(1,2), unfolded synced_agree] synced_store2 [OF assms(1,2), unfolded synced_agree]
  have a: "agree1 cf sys g" "agree2 cf sys g" using assms(4) by (simp_all add: synced_agree)
  have id: "synced cf sys (set_id cf sys v g')" if "synced cf sys g'" for v g'
    using that by (auto simp: set_id_def synced_agree s)
  show ?thesis
  proof (cases oper)
    case (UpdateId mac r)
    then show ?thesis using assms(4) id by (simp add: update_id_def get_id_def split: option.split)
  next
    case (SetSize v)
    then show ?thesis using a s by (cases v) (auto simp: set_size_def synced_agree)
  qed (use assms(3,4) a s in \<open>auto simp: config_ops synced_agree split: option.split prod.split\<close>)
qed

lemma config_step_synced:
  assumes "synced cf sys g \<or> \<not> reliable cf \<or> project_config_dir sys = None" "safe_op oper"
    "config_step cf sys es g oper = Some (g', out)"
  shows "synced cf sys g' \<or> \<not> reliable cf \<or> project_config_dir sys = None"
  using assms config_run_synced [of cf sys _ oper g es]
  by (cases "project_config_dir sys") (auto simp: config_step_def)

interpretation durable: machine_invariant "config_step cf sys es"
  "\<lambda>g. synced cf sys g \<or> \<not> reliable cf \<or> project_config_dir sys = None" safe_op
  by unfold_locales (rule config_step_synced)


text \<open>Files written from the defaults.\<close>

definition stored_settings :: "mem_disk settings" where
  "stored_settings = store_config2 mem_confy demo_sys (store_config mem_confy demo_sys fresh_settings)"

lemma stored_settings_synced: "synced mem_confy demo_sys stored_settings"
proof -
  have dir: "project_config_dir demo_sys = Some ''/c''" by (simp add: demo_sys_def)
  have "agree2 mem_confy demo_sys fresh_settings"
    by (simp add: agree2_def mem_confy_def fresh_settings_def)
  from synced_store1 [OF mem_confy_reliable dir this] show ?thesis
    unfolding stored_settings_def by (intro synced_store2 [OF mem_confy_reliable dir]) (simp add: synced_agree)
qed


text \<open>C39: Setting the custom rendezvous server to the value it has clears the measured server in memory but does not
  store it, so memory and file differ until something else is stored.\<close>

theorem unchanged_option_not_stored:
  assumes "synced cf sys g" "rendezvous_server (conf2 g) \<noteq> []"
    and "options (conf2 g) ''custom-rendezvous-server'' = (if v = [] then None else Some v)"
  shows "rendezvous_server (conf2 (set_option cf sys ''custom-rendezvous-server'' v g)) = [] \<and>
    files (set_option cf sys ''custom-rendezvous-server'' v g) = files g \<and>
    \<not> synced cf sys (set_option cf sys ''custom-rendezvous-server'' v g)"
proof -
  let ?g' = "g\<lparr>conf2 := (conf2 g)\<lparr>rendezvous_server := []\<rparr>\<rparr>"
  have g': "set_option cf sys ''custom-rendezvous-server'' v g = ?g'"
    using assms(3) by (simp add: set_option_def Let_def)
  have "rendezvous_server (conf2 ?g') \<noteq> rendezvous_server (conf2 g)" using assms(2) by simp
  then have "conf2 ?g' \<noteq> conf2 g" by metis
  then show ?thesis using assms(1) unfolding g' synced_def by simp
qed

theorem unchanged_option_not_stored_witness:
  "\<not> synced mem_confy demo_sys (set_option mem_confy demo_sys ''custom-rendezvous-server'' []
     (update_latency mem_confy demo_sys (\<lambda>_. [(''h'', 5)]) ''h'' 5 stored_settings))"
proof -
  have dir: "project_config_dir demo_sys = Some ''/c''" by (simp add: demo_sys_def)
  let ?g = "update_latency mem_confy demo_sys (\<lambda>_. [(''h'', 5)]) ''h'' 5 stored_settings"
  have sync: "synced mem_confy demo_sys ?g"
    using config_run_synced [OF mem_confy_reliable dir _ stored_settings_synced, of "UpdateLatency ''h'' 5" "\<lambda>_. [(''h'', 5)]"] by simp
  have "rendezvous_server (conf2 ?g) = ''h''" "options (conf2 ?g) = Map.empty"
    by (simp_all add: update_latency_def Let_def I64_MAX_def stored_settings_def fresh_settings_def config2_default_def)
  then show ?thesis using unchanged_option_not_stored [OF sync, of "[]"] by simp
qed

end
