(* ===== verification/Config_Peers.thy ===== *)
theory Config_Peers imports Config_Props begin

text \<open>
  Listing the known peers, \<open>PeerConfig::peers\<close> in \<open>libs/hbb_common/src/config.rs\<close>: which of the stored
  settings it finds again, and which files it removes.
\<close>

section \<open>The files of the peers' directory\<close>

text \<open>What is documented of \<open>confy\<close> for peers: a load gives what was last stored at the path.\<close>

definition peers_kept :: "'d confy \<Rightarrow> bool" where
  "peers_kept cf \<longleftrightarrow>
     (\<forall>d p c. fst (load_peer cf (snd (store_peer cf d p c)) p) = Inr c) \<and>
     (\<forall>d p q c. p \<noteq> q \<longrightarrow> fst (load_peer cf (snd (store_peer cf d q c)) p) = fst (load_peer cf d p))"

lemma mem_confy_kept: "peers_kept mem_confy"
  by (auto simp: peers_kept_def mem_confy_def split: option.split)

lemma peer_load_stored:
  assumes "peers_kept cf" "peer_path sys a = peer_path sys b"
  shows "fst (peer_load cf sys a (peer_store cf sys c b d)) = c"
proof -
  have "fst (load_peer cf (peer_store cf sys c b d) (peer_path sys a)) = Inr c"
    using assms by (simp add: peers_kept_def peer_store_def)
  then show ?thesis by (auto simp: peer_load_def split: prod.splits sum.splits)
qed

lemma peer_load_other:
  assumes "peers_kept cf" "peer_path sys a \<noteq> peer_path sys b"
  shows "fst (peer_load cf sys a (peer_store cf sys c b d)) = fst (peer_load cf sys a d)"
proof -
  have "fst (load_peer cf (peer_store cf sys c b d) (peer_path sys a)) = fst (load_peer cf d (peer_path sys a))"
    using assms by (simp add: peers_kept_def peer_store_def)
  then show ?thesis by (auto simp: peer_load_def split: prod.splits sum.splits)
qed

text \<open>The id the listing reads off the file of a peer: the id up to its last dot.\<close>

lemma plain_stem: "plain a \<Longrightarrow> fst (split_stem a) \<noteq> [] \<and> CHR ''/'' \<notin> set (fst (split_stem a))"
proof (cases "CHR ''.'' \<in> set a")
  case True
  assume p: "plain a"
  obtain t e where a: "a = t @ CHR ''.'' # e" "CHR ''.'' \<notin> set e" using split_list_last [OF True] by blast
  show ?thesis
  proof (cases "t = []")
    case t: True
    then have "split_stem a = (a, None)" using a by (simp add: split_stem_def split_on_none Let_def)
    then show ?thesis using p by (simp add: plain_def)
  next
    case False
    moreover have "t @ CHR ''.'' # e \<noteq> ''..''" using p a by (auto simp: plain_def)
    ultimately have "split_stem a = (t, Some e)" unfolding a(1) by (rule split_stem_dot [OF _ a(2)])
    then show ?thesis using p a False by (simp add: plain_def)
  qed
qed (simp add: split_stem_no_dot plain_def)

lemma listed_stem:
  assumes "project_config_dir sys = Some dir" "plain a"
  shows "file_stem (peer_path sys a) = Some (fst (split_stem a)) \<and> extension (peer_path sys a) = Some ''toml''"
proof -
  let ?s = "fst (split_stem a)"
  have s: "?s \<noteq> []" "CHR ''/'' \<notin> set ?s" using plain_stem [OF assms(2)] by auto
  have pl: "plain (?s @ ''.toml'')" using s by (auto simp: plain_def append_eq_Cons_conv)
  have "split_stem (?s @ CHR ''.'' # ''toml'') = (?s, Some ''toml'')"
    by (rule split_stem_dot [OF s(1)]) (auto simp: append_eq_Cons_conv)
  moreover obtain pre where "path_join (path_join (patch sys dir) PEERS) (?s @ ''.toml'') = pre @ (?s @ ''.toml'')"
      "pre = [] \<or> (\<exists>d. pre = d @ ''/'')"
    using path_join_pre [OF is_absolute_plain [OF pl]] by metis
  ultimately show ?thesis
    using file_name_pre [OF _ pl] by (auto simp: peer_path_plain [OF assms] file_stem_def extension_def)
qed

lemma stem_shorter: "snd (split_stem a) = None \<longleftrightarrow> fst (split_stem a) = a"
proof (cases "a = []")
  case False
  then have "length (take (length a - k - 1) a) \<noteq> length a" for k by (cases a) auto
  then have "take (length a - k - 1) a \<noteq> a" for k by metis
  then show ?thesis by (auto simp: split_stem_def Let_def)
qed (simp add: split_stem_def)

lemma peer_path_stem:
  assumes "project_config_dir sys = Some dir" "plain a" "plain (fst (split_stem a))"
  shows "peer_path sys (fst (split_stem a)) = peer_path sys a \<longleftrightarrow> snd (split_stem (fst (split_stem a))) = None"
  using assms by (simp add: peer_path_plain path_join_cancel stem_relative stem_shorter)

section \<open>What is listed\<close>

lemma peers_at_platform:
  "x \<in> set (fst (peers_at cf sys ps d)) \<Longrightarrow> platform (snd (snd x)) \<noteq> []"
  by (induction cf sys ps d rule: peers_at.induct) (auto split: if_splits prod.splits)

text \<open>The list is in descending order of the times, and has a platform for every peer.\<close>

lemma peers_latest_first:
  assumes "\<forall>ps. set (arrange ps) = set ps"
  shows "sorted_wrt (\<lambda>x y. fst (snd y) \<le> fst (snd x)) (fst (peers cf sys arrange d)) \<and>
    (\<forall>x \<in> set (fst (peers cf sys arrange d)). platform (snd (snd x)) \<noteq> [])"
proof -
  have "sorted_wrt (\<lambda>x y. fst (snd y) \<le> fst (snd x)) (sort_key (\<lambda>(_, t, _). - t) ps)"
    for ps :: "(string \<times> int \<times> peer_info_serde) list"
    using sorted_sort_key [of "\<lambda>(_, t, _). - t" ps] unfolding sorted_wrt_map by (simp add: case_prod_unfold)
  note sorted = this
  show ?thesis
  proof (cases "list_dir cf d (config_path sys PEERS)")
    case (Some entries)
    obtain ps d' where ps: "peers_at cf sys (map projr entries) d = (ps, d')" by fastforce
    have "platform (snd (snd x)) \<noteq> []" if "x \<in> set ps" for x
      using peers_at_platform [of x cf sys "map projr entries" d] ps that by simp
    then show ?thesis using Some ps sorted [of "arrange ps"] assms by (simp add: peers_def)
  qed (simp add: peers_def)
qed


definition demo_peer :: peer_config where
  "demo_peer = peer_config_default\<lparr>info := \<lparr>username = ''u'', hostname = ''h'', platform = ''Linux''\<rparr>\<rparr>"


end
