(* ===== verification/Quic.thy ===== *)
theory Quic imports Rust_Prelude Machine begin

text \<open>
  \<open>libs/hbb_common/src/quic.rs\<close>: a connection over QUIC, compiled with the \<open>quic\<close> feature. The quinn
  endpoint is an argument: what it yields is given as values, errors as \<open>?\<close> converts them. A connection receives over an unbounded
  channel, whose sending half is held by the task that accepts streams and by one task for each stream;
  \<open>recv\<close> gives the values in order, and nothing more once the queue is empty and all senders are gone.
\<close>

section \<open>Opening connections\<close>

type_synonym val = "anyhow_error + bytes"

definition QUIC_HBB :: "string list" where "QUIC_HBB = [''hbb'']"
definition SERVER_NAME :: string where "SERVER_NAME = ''hbb''"

record ('c, 'q) connection =
  conn :: 'c \<comment> \<open>quinn's connection\<close>
  tx :: 'q \<comment> \<open>the stream it sends on\<close>
  queue :: "val list"
  accepting :: bool \<comment> \<open>the accept loop runs and holds a sender\<close>
  handlers :: nat \<comment> \<open>spawned tasks that have not run yet, each with a sender\<close>

text \<open>
  \<open>new_for_server\<close>: the next incoming connection, its handshake, and the stream to send on. The accept
  loop is spawned before the last of them; what it does until the stream is open is counted as done after.
\<close>

definition new_for_server :: "(anyhow_error + 'c) option \<Rightarrow> ('c \<Rightarrow> anyhow_error + 'q) \<Rightarrow> anyhow_error + ('c, 'q) connection option" where
  "new_for_server incoming open_uni =
     (case incoming of
        None \<Rightarrow> Inr None
      | Some (Inl e) \<Rightarrow> Inl e
      | Some (Inr c) \<Rightarrow>
          (case open_uni c of
             Inl e \<Rightarrow> Inl e
           | Inr q \<Rightarrow> Inr (Some \<lparr>conn = c, tx = q, queue = [], accepting = True, handlers = 0\<rparr>)))"

text \<open>\<open>new_for_client\<close>: one stream in both directions, whose receiving half goes to one handler.\<close>

definition new_for_client :: "'c \<Rightarrow> ('c \<Rightarrow> anyhow_error + 'q) \<Rightarrow> anyhow_error + ('c, 'q) connection" where
  "new_for_client c open_bi =
     (case open_bi c of
        Inl e \<Rightarrow> Inl e
      | Inr q \<Rightarrow> Inr \<lparr>conn = c, tx = q, queue = [], accepting = False, handlers = 1\<rparr>)"

text \<open>
  The endpoints. \<open>with_socket\<close> is quinn's endpoint built for the protocols and the window of unidirectional
  streams it is given, \<open>bind_end\<close> a client's; \<open>connect\<close> includes the handshake.
\<close>

definition new_server :: "(string list \<Rightarrow> nat \<Rightarrow> 'sk \<Rightarrow> anyhow_error + 'e \<times> 'i) \<Rightarrow> ('e \<Rightarrow> anyhow_error + 'a) \<Rightarrow> 'sk \<Rightarrow>
    anyhow_error + 'i \<times> 'a" where
  "new_server with_socket local_addr socket =
     (case with_socket QUIC_HBB 0 socket of
        Inl e \<Rightarrow> Inl e
      | Inr (end_point, incoming) \<Rightarrow>
          (case local_addr end_point of Inl e \<Rightarrow> Inl e | Inr addr \<Rightarrow> Inr (incoming, addr)))"

definition new_client :: "(string list \<Rightarrow> 'a \<Rightarrow> anyhow_error + 'e) \<Rightarrow> ('e \<Rightarrow> 'a \<Rightarrow> string \<Rightarrow> anyhow_error + 'c) \<Rightarrow>
    ('c \<Rightarrow> anyhow_error + 'q) \<Rightarrow> 'a \<Rightarrow> 'a \<Rightarrow> anyhow_error + ('c, 'q) connection" where
  "new_client bind_end connect open_bi local_addr peer =
     (case bind_end QUIC_HBB local_addr of
        Inl e \<Rightarrow> Inl e
      | Inr end_point \<Rightarrow>
          (case connect end_point peer SERVER_NAME of
             Inl e \<Rightarrow> Inl e
           | Inr new_conn \<Rightarrow> new_for_client new_conn open_bi))"

text \<open>\<open>Server::next\<close> takes the next connection of its endpoint, and \<open>remote_address\<close> asks quinn's.\<close>

definition server_next :: "(anyhow_error + 'c) option \<Rightarrow> ('c \<Rightarrow> anyhow_error + 'q) \<Rightarrow> anyhow_error + ('c, 'q) connection option" where
  "server_next incoming open_uni = new_for_server incoming open_uni"

definition remote_address :: "('c \<Rightarrow> 'a) \<Rightarrow> ('c, 'q) connection \<Rightarrow> 'a" where
  "remote_address addr_of s = addr_of (conn s)"

section \<open>Receiving\<close>

datatype quic_event =
    Incoming "(anyhow_error + unit) option" \<comment> \<open>what \<open>bi_streams.next()\<close> yields\<close>
  | HandlerRuns
  | Next \<comment> \<open>the user awaits \<open>next\<close>\<close>

datatype quic_output = Received "val option"

text \<open>\<open>handle_request\<close>: it returns at once, which drops its sender; the values it sends are none.\<close>

definition handle_request :: "val list" where
  "handle_request = []"

definition reset_error :: anyhow_error where
  "reset_error = Bail ''Reset by the peer''"

text \<open>\<open>next\<close>: no step while it has to wait.\<close>

definition quic_next :: "('c, 'q) connection \<Rightarrow> (('c, 'q) connection \<times> quic_output list) option" where
  "quic_next s =
     (case queue s of
        v # vs \<Rightarrow> Some (s\<lparr>queue := vs\<rparr>, [Received (Some v)])
      | [] \<Rightarrow> if accepting s \<or> handlers s \<noteq> 0 then None else Some (s, [Received None]))"

text \<open>The accept loop, the tasks it spawns, and the user of the connection, one step at a time.\<close>

fun quic_step :: "('c, 'q) connection \<Rightarrow> quic_event \<Rightarrow> (('c, 'q) connection \<times> quic_output list) option" where
  "quic_step s (Incoming res) =
     (if \<not> accepting s then None
      else case res of
        Some (Inr _) \<Rightarrow> Some (s\<lparr>handlers := handlers s + 1\<rparr>, [])
      | Some (Inl e) \<Rightarrow> Some (s\<lparr>queue := queue s @ [Inl e], accepting := False\<rparr>, [])
      | None \<Rightarrow> Some (s\<lparr>queue := queue s @ [Inl reset_error], accepting := False\<rparr>, []))"
| "quic_step s HandlerRuns =
     (if handlers s = 0 then None
      else Some (s\<lparr>queue := queue s @ handle_request, handlers := handlers s - 1\<rparr>, []))"
| "quic_step s Next = quic_next s"

declare quic_next_def [simp]

section \<open>Sending\<close>

definition quic_send_raw :: "('q \<Rightarrow> bytes \<Rightarrow> (anyhow_error + unit) \<times> 'q) \<Rightarrow> ('c, 'q) connection \<Rightarrow> bytes \<Rightarrow>
    (anyhow_error + unit) \<times> ('c, 'q) connection" where
  "quic_send_raw wr s bs =
     (case wr (tx s) bs of
        (Inl e, q) \<Rightarrow> (Inl e, s\<lparr>tx := q\<rparr>)
      | (Inr _, q) \<Rightarrow> (Inr (), s\<lparr>tx := q\<rparr>))"

text \<open>A message that cannot be serialised is logged, and the caller is told that it was sent.\<close>

definition quic_send :: "('q \<Rightarrow> bytes \<Rightarrow> (anyhow_error + unit) \<times> 'q) \<Rightarrow> ('c, 'q) connection \<Rightarrow> string + bytes \<Rightarrow>
    (anyhow_error + unit) \<times> ('c, 'q) connection" where
  "quic_send wr s msg =
     (case msg of
        Inr bs \<Rightarrow> quic_send_raw wr s bs
      | Inl err \<Rightarrow> (Inr (), s))"

section \<open>What is received\<close>

text \<open>The values received, and those still in the queue, in order.\<close>

fun received :: "quic_output \<Rightarrow> val list" where
  "received (Received (Some v)) = [v]"
| "received (Received None) = []"

text \<open>What the accept loop puts on the channel: one error, when it ends.\<close>

fun accept_error :: "quic_event \<Rightarrow> val list" where
  "accept_error (Incoming (Some (Inl e))) = [Inl e]"
| "accept_error (Incoming None) = [Inl reset_error]"
| "accept_error _ = []"

lemma quic_step_values:
  "quic_step s e = Some (s', out) \<Longrightarrow> concat (map received out) @ queue s' = queue s @ accept_error e"
  by (cases "(s, e)" rule: quic_step.cases) (auto simp: handle_request_def split: if_splits option.splits sum.splits list.splits)

lemma quic_step_loop:
  "quic_step s e = Some (s', out) \<Longrightarrow>
     (accepting s' \<longrightarrow> accepting s) \<and> length (accept_error e) = (if accepting s \<and> \<not> accepting s' then 1 else 0)"
  by (cases "(s, e)" rule: quic_step.cases) (auto split: if_splits option.splits sum.splits list.splits)

lemma quic_run_values:
  assumes "run_machine quic_step s es = Some (s', out)"
  shows "concat (map received out) @ queue s' = queue s @ concat (map accept_error es)"
  using assms
proof (induction rule: run_machine_induct)
  case (Cons s e s1 out1 es s' out)
  have "concat (map received (out1 @ out)) @ queue s' = concat (map received out1) @ queue s1 @ concat (map accept_error es)"
    using Cons(3) by simp
  also have "\<dots> = queue s @ accept_error e @ concat (map accept_error es)"
    using quic_step_values [OF Cons(1)] by (metis append.assoc)
  finally show ?case by simp
qed simp

lemma quic_run_errors:
  assumes "run_machine quic_step s es = Some (s', out)"
  shows "(accepting s' \<longrightarrow> accepting s) \<and>
    length (concat (map accept_error es)) = (if accepting s \<and> \<not> accepting s' then 1 else 0)"
  using assms
proof (induction rule: run_machine_induct)
  case (Cons s e s1 out1 es s' out)
  have split: "length (concat (map accept_error (e # es))) = length (accept_error e) + length (concat (map accept_error es))"
    by (simp only: list.map concat.simps length_append)
  show ?case
    unfolding split using quic_step_loop [OF Cons(1)] Cons(3)
    by (cases "accepting s"; cases "accepting s1"; cases "accepting s'") (simp_all only: simp_thms if_True if_False add_0 add_0_right)
qed simp

lemma server_empty: "new_for_server inc open_uni = Inr (Some s) \<Longrightarrow> queue s = []"
  by (cases inc; cases "the inc"; cases "open_uni (projr (the inc))") (auto simp: new_for_server_def)

lemma client_empty: "new_for_client c open_bi = Inr s \<Longrightarrow> queue s = []"
  by (cases "open_bi c") (auto simp: new_for_client_def)

lemma made_empty:
  assumes "(\<exists>inc open_uni. server_next inc open_uni = Inr (Some s)) \<or> (\<exists>c open_bi. new_for_client c open_bi = Inr s)"
  shows "queue s = []"
  using assms by (elim disjE exE) (unfold server_next_def, erule server_empty, erule client_empty)

text \<open>C40: A QUIC connection delivers no data: whatever streams the peer opens, what \<open>next\<close> yields on a connection
  made by either constructor is at most one value, an error, only after the accept loop has ended, because the handler of a
  stream is empty; and the channel reports its end only when the loop and every handler are gone.\<close>

theorem quic_delivers_nothing:
  assumes "(\<exists>inc open_uni. server_next inc open_uni = Inr (Some s)) \<or> (\<exists>c open_bi. new_for_client c open_bi = Inr s)"
    and "run_machine quic_step s es = Some (s', out)"
  shows "length (concat (map received out)) \<le> 1 \<and>
    (concat (map received out) \<noteq> [] \<longrightarrow> (\<exists>e. concat (map received out) = [Inl e]) \<and> \<not> accepting s') \<and>
    (quic_step s' Next = Some (s', [Received None]) \<longleftrightarrow> queue s' = [] \<and> \<not> accepting s' \<and> handlers s' = 0)"
proof -
  note v = quic_run_values [OF assms(2)] and n = quic_run_errors [OF assms(2)] and empty = made_empty [OF assms(1)]
  have "set (concat (map accept_error es)) \<subseteq> range Inl"
  proof
    fix x assume "x \<in> set (concat (map accept_error es))"
    then obtain e where "x \<in> set (accept_error e)" by auto
    then show "x \<in> range Inl" by (cases e rule: accept_error.cases) auto
  qed
  then have errs: "set (concat (map received out)) \<subseteq> range Inl"
    using v empty by (metis append_Nil le_sup_iff set_append)
  have len: "length (concat (map received out)) + length (queue s') = (if accepting s \<and> \<not> accepting s' then 1 else 0)"
    using v n empty by (metis append_Nil length_append)
  have last: "quic_step s' Next = Some (s', [Received None]) \<longleftrightarrow> queue s' = [] \<and> \<not> accepting s' \<and> handlers s' = 0"
    by (cases "queue s'") auto
  show ?thesis
  proof (cases "concat (map received out)")
    case Nil
    show ?thesis unfolding Nil using last by simp
  next
    case (Cons x xs)
    then have "xs = []" "\<not> accepting s'" using len by (auto split: if_splits)
    then show ?thesis using Cons errs last by auto
  qed
qed

definition client_example :: "(unit, unit) connection" where
  "client_example = \<lparr>conn = (), tx = (), queue = [], accepting = False, handlers = 1\<rparr>"

theorem quic_delivers_nothing_witness:
  "run_machine quic_step client_example [HandlerRuns] = Some (client_example\<lparr>handlers := 0\<rparr>, []) \<and>
   quic_step (client_example\<lparr>handlers := 0\<rparr>) Next = Some (client_example\<lparr>handlers := 0\<rparr>, [Received None])"
proof -
  have run: "run_machine quic_step client_example [HandlerRuns] = Some (client_example\<lparr>handlers := 0\<rparr>, [])"
    by (simp add: run_machine.simps(2) client_example_def handle_request_def)
  have "new_for_client () (\<lambda>_. Inr ()) = Inr client_example" by (simp add: new_for_client_def client_example_def)
  then have "(\<exists>inc open_uni. server_next inc open_uni = Inr (Some client_example)) \<or> (\<exists>c open_bi. new_for_client c open_bi = Inr client_example)"
    by blast
  from quic_delivers_nothing [OF this run] show ?thesis using run by (simp add: client_example_def)
qed

end
