(* ===== verification/Framed_Stream.thy ===== *)
theory Framed_Stream imports Bytes_Codec begin

text \<open>
  \<open>libs/hbb_common/src/tcp.rs\<close>: the stream of every TCP connection, \<open>tokio_util\<close>'s \<open>Framed\<close> over the
  byte codec with an optional secret-box key. Libraries the file calls are the fields of an
  environment: the operations of the \<open>Framed\<close> inside, seal and open of sodium's secret box, and what
  the build fixes (byte order, overflow checks, the nonce's length, which sodium sets to 24).
\<close>

section \<open>The stream\<close>

record ('f, 'k) tcp_env =
  fsend :: "'f \<Rightarrow> bytes \<Rightarrow> (io_error + unit) \<times> 'f"
  fnext :: "'f \<Rightarrow> (io_error + bytes) option \<times> 'f"
  fset_raw :: "'f \<Rightarrow> 'f"
  seal :: "bytes \<Rightarrow> bytes \<Rightarrow> 'k \<Rightarrow> bytes"
  sopen :: "bytes \<Rightarrow> bytes \<Rightarrow> 'k \<Rightarrow> bytes option"
  byte_order :: endian
  nonce_bytes :: nat
  checks :: bool

record ('f, 'k) framed_stream =
  inner :: 'f
  key :: "('k \<times> u64 \<times> u64) option"

definition stream_from :: "'f \<Rightarrow> ('f, 'k) framed_stream" where
  "stream_from f = \<lparr>inner = f, key = None\<rparr>"

definition set_raw :: "('f, 'k) tcp_env \<Rightarrow> ('f, 'k) framed_stream \<Rightarrow> ('f, 'k) framed_stream" where
  "set_raw env s = s\<lparr>inner := fset_raw env (inner s), key := None\<rparr>"

definition is_secured :: "('f, 'k) framed_stream \<Rightarrow> bool" where
  "is_secured s \<longleftrightarrow> key s \<noteq> None"

definition set_key :: "('f, 'k) framed_stream \<Rightarrow> 'k \<Rightarrow> ('f, 'k) framed_stream" where
  "set_key s k = s\<lparr>key := Some (k, 0, 0)\<rparr>"

definition get_nonce :: "('f, 'k) tcp_env \<Rightarrow> u64 \<Rightarrow> bytes" where
  "get_nonce env seqnum = to_ne_bytes (byte_order env) seqnum @ replicate (nonce_bytes env - 8) 0"

section \<open>Sending\<close>

definition send_bytes :: "('f, 'k) tcp_env \<Rightarrow> ('f, 'k) framed_stream \<Rightarrow> bytes \<Rightarrow>
    (anyhow_error + unit) \<times> ('f, 'k) framed_stream" where
  "send_bytes env s bs =
     (case fsend env (inner s) bs of
        (Inl e, f) \<Rightarrow> (Inl (Io e), s\<lparr>inner := f\<rparr>)
      | (Inr u, f) \<Rightarrow> (Inr (), s\<lparr>inner := f\<rparr>))"

definition send_raw :: "('f, 'k) tcp_env \<Rightarrow> ('f, 'k) framed_stream \<Rightarrow> bytes \<Rightarrow>
    ((anyhow_error + unit) \<times> ('f, 'k) framed_stream) outcome" where
  "send_raw env s msg =
     (case key s of
        Some (k, sent, rcvd) \<Rightarrow>
          obind (rust_add (checks env) sent 1) (\<lambda>sent'.
            let msg = seal env msg (get_nonce env sent') k;
                s = s\<lparr>key := Some (k, sent', rcvd)\<rparr>
            in Ret (send_bytes env s msg))
      | None \<Rightarrow> Ret (send_bytes env s msg))"

text \<open>\<open>written\<close> is the message's \<open>write_to_bytes\<close>.\<close>

definition send :: "('f, 'k) tcp_env \<Rightarrow> ('f, 'k) framed_stream \<Rightarrow> string + bytes \<Rightarrow>
    ((anyhow_error + unit) \<times> ('f, 'k) framed_stream) outcome" where
  "send env s written =
     (case written of Inl e \<Rightarrow> Ret (Inl (Encoding e), s) | Inr msg \<Rightarrow> send_raw env s msg)"

section \<open>Receiving\<close>

definition next_msg :: "('f, 'k) tcp_env \<Rightarrow> ('f, 'k) framed_stream \<Rightarrow>
    ((io_error + bytes) option \<times> ('f, 'k) framed_stream) outcome" where
  "next_msg env s =
     (let (res, f) = fnext env (inner s); s = s\<lparr>inner := f\<rparr> in
      case key s of
        Some (k, sent, rcvd) \<Rightarrow>
          (case res of
             Some (Inr bs) \<Rightarrow>
               obind (rust_add (checks env) rcvd 1) (\<lambda>rcvd'.
                 let s = s\<lparr>key := Some (k, sent, rcvd')\<rparr> in
                 case sopen env bs (get_nonce env rcvd') k of
                   Some res \<Rightarrow> Ret (Some (Inr res), s)
                 | None \<Rightarrow> Ret (Some (Inl (IoError OtherKind ''decryption error'')), s))
           | _ \<Rightarrow> Ret (res, s))
      | None \<Rightarrow> Ret (res, s))"

text \<open>
  With a timer: if it fires first, the pending \<open>next\<close> is dropped; it may have read into the inner
  buffer (\<open>late\<close> is the inner state then), but it is cancelled before it touches the key.
\<close>

definition next_timeout :: "('f, 'k) tcp_env \<Rightarrow> 'f option \<Rightarrow> ('f, 'k) framed_stream \<Rightarrow>
    ((io_error + bytes) option \<times> ('f, 'k) framed_stream) outcome" where
  "next_timeout env late s =
     (case late of Some f \<Rightarrow> Ret (None, s\<lparr>inner := f\<rparr>) | None \<Rightarrow> next_msg env s)"

section \<open>Connecting and listening\<close>

text \<open>
  \<open>connect\<close> answers one attempt: the timer fires, the attempt fails, or it yields a stream. \<open>sock\<close> is
  \<open>new_socket\<close> on the local address, \<open>remotes\<close> the resolved remote name, asked again for each local
  address.
\<close>

datatype 'f attempt = TimedOut | Refused io_error | Connected 'f

fun connect_remotes :: "('sk \<Rightarrow> socket_addr \<Rightarrow> 'f attempt) \<Rightarrow> (socket_addr \<Rightarrow> io_error + 'sk) \<Rightarrow>
    socket_addr \<Rightarrow> socket_addr list \<Rightarrow> (anyhow_error + ('f, 'k) framed_stream) option" where
  "connect_remotes connect sock local [] = None"
| "connect_remotes connect sock local (r # rs) =
     (case sock local of
        Inl e \<Rightarrow> Some (Inl (Io e))
      | Inr sk \<Rightarrow>
          (case connect sk r of
             TimedOut \<Rightarrow> Some (Inl Elapsed)
           | Refused e \<Rightarrow> connect_remotes connect sock local rs
           | Connected f \<Rightarrow> Some (Inr (stream_from f))))"

fun connect_locals :: "('sk \<Rightarrow> socket_addr \<Rightarrow> 'f attempt) \<Rightarrow> (socket_addr \<Rightarrow> io_error + 'sk) \<Rightarrow>
    (socket_addr \<Rightarrow> io_error + socket_addr list) \<Rightarrow> socket_addr list \<Rightarrow>
    anyhow_error + ('f, 'k) framed_stream" where
  "connect_locals connect sock remotes [] = Inl (Bail ''could not resolve to any address'')"
| "connect_locals connect sock remotes (l # ls) =
     (case remotes l of
        Inl e \<Rightarrow> Inl (Io e)
      | Inr rs \<Rightarrow>
          (case connect_remotes connect sock l rs of
             Some res \<Rightarrow> res
           | None \<Rightarrow> connect_locals connect sock remotes ls))"

definition stream_new :: "('sk \<Rightarrow> socket_addr \<Rightarrow> 'f attempt) \<Rightarrow> (socket_addr \<Rightarrow> io_error + 'sk) \<Rightarrow>
    (socket_addr \<Rightarrow> io_error + socket_addr list) \<Rightarrow> io_error + socket_addr list \<Rightarrow>
    anyhow_error + ('f, 'k) framed_stream" where
  "stream_new connect sock remotes locals =
     (case locals of Inl e \<Rightarrow> Inl (Io e) | Inr ls \<Rightarrow> connect_locals connect sock remotes ls)"

text \<open>
  \<open>new_listener\<close>: \<open>bind\<close> is tokio's own bind, \<open>listen\<close> the backlog call and \<open>from_std\<close> the conversion to
  tokio's listener; with \<open>reuse\<close> only the first resolved address is ever tried.
\<close>

definition DEFAULT_BACKLOG :: int where
  "DEFAULT_BACKLOG = 128"

definition new_listener :: "(unit \<Rightarrow> io_error + 'l) \<Rightarrow> (socket_addr \<Rightarrow> io_error + 'sk) \<Rightarrow>
    ('sk \<Rightarrow> int \<Rightarrow> io_error + 'sk) \<Rightarrow> ('sk \<Rightarrow> io_error + 'l) \<Rightarrow> io_error + socket_addr list \<Rightarrow> bool \<Rightarrow>
    anyhow_error + 'l" where
  "new_listener bind sock listen from_std addrs reuse =
     (if \<not> reuse then (case bind () of Inl e \<Rightarrow> Inl (Io e) | Inr l \<Rightarrow> Inr l)
      else case addrs of
        Inl e \<Rightarrow> Inl (Io e)
      | Inr [] \<Rightarrow> Inl (Bail ''could not resolve to any address'')
      | Inr (a # _) \<Rightarrow>
          (case sock a of
             Inl e \<Rightarrow> Inl (Io e)
           | Inr sk \<Rightarrow>
               (case listen sk DEFAULT_BACKLOG of
                  Inl e \<Rightarrow> Inl (Io e)
                | Inr sk' \<Rightarrow> (case from_std sk' of Inl e \<Rightarrow> Inl (Io e) | Inr l \<Rightarrow> Inr l))))"

section \<open>Nonces\<close>

lemma get_nonce_inj: "get_nonce env a = get_nonce env b \<longleftrightarrow> a = b"
proof
  assume "get_nonce env a = get_nonce env b"
  then have "to_ne_bytes (byte_order env) a = to_ne_bytes (byte_order env) b"
    by (simp add: get_nonce_def)
  then have "from_ne_bytes (byte_order env) (to_ne_bytes (byte_order env) a) =
      (from_ne_bytes (byte_order env) (to_ne_bytes (byte_order env) b) :: u64)" by simp
  then show "a = b" by simp
qed simp

lemma length_get_nonce: "8 \<le> nonce_bytes env \<Longrightarrow> length (get_nonce env a) = nonce_bytes env"
  by (simp add: get_nonce_def)


section \<open>Streams of messages\<close>

text \<open>Sending a list of messages, and receiving a number of them; both stop at the first failure.\<close>

fun send_all :: "('f, 'k) tcp_env \<Rightarrow> ('f, 'k) framed_stream \<Rightarrow> bytes list \<Rightarrow>
    (anyhow_error + ('f, 'k) framed_stream) outcome" where
  "send_all env s [] = Ret (Inr s)"
| "send_all env s (m # ms) =
     obind (send_raw env s m) (\<lambda>(r, s').
       case r of Inl e \<Rightarrow> Ret (Inl e) | Inr _ \<Rightarrow> send_all env s' ms)"

fun recv_all :: "('f, 'k) tcp_env \<Rightarrow> ('f, 'k) framed_stream \<Rightarrow> nat \<Rightarrow>
    (bytes list \<times> ('f, 'k) framed_stream) option outcome" where
  "recv_all env s 0 = Ret (Some ([], s))"
| "recv_all env s (Suc n) =
     obind (next_msg env s) (\<lambda>(res, s').
       case res of
         Some (Inr m) \<Rightarrow>
           obind (recv_all env s' n) (\<lambda>r. Ret (map_option (\<lambda>(ms, s''). (m # ms, s'')) r))
       | _ \<Rightarrow> Ret None)"

text \<open>What a secured sender whose counter stands at \<open>c\<close> puts on the wire for a list of messages.\<close>

definition nonces :: "('f, 'k) tcp_env \<Rightarrow> u64 \<Rightarrow> nat \<Rightarrow> bytes list" where
  "nonces env c n = map (\<lambda>i. get_nonce env (c + word_of_nat (Suc i))) [0..<n]"

definition sealed :: "('f, 'k) tcp_env \<Rightarrow> 'k \<Rightarrow> u64 \<Rightarrow> bytes list \<Rightarrow> bytes list" where
  "sealed env k c ms = map2 (\<lambda>m n. seal env m n k) ms (nonces env c (length ms))"

lemma nonces_Suc: "nonces env c (Suc n) = get_nonce env (c + 1) # nonces env (c + 1) n"
proof -
  have "nonces env c (Suc n) =
      get_nonce env (c + 1) # map (\<lambda>i. get_nonce env (c + word_of_nat (Suc (Suc i)))) [0..<n]"
    unfolding nonces_def by (subst upt_conv_Cons, simp) (simp add: map_Suc_upt [symmetric] del: upt_Suc)
  then show ?thesis by (simp add: nonces_def algebra_simps)
qed

lemma sealed_simps [simp]:
  "sealed env k c [] = []"
  "sealed env k c (m # ms) = seal env m (get_nonce env (c + 1)) k # sealed env k (c + 1) ms"
  by (simp_all add: sealed_def nonces_Suc)

lemma distinct_nonces:
  assumes "n < 2 ^ 64"
  shows "distinct (nonces env c n)"
proof -
  have "i = j" if "i < n" "j < n" "word_of_nat (Suc i) = (word_of_nat (Suc j) :: u64)" for i j
  proof -
    have "unat (word_of_nat (Suc i) :: u64) = Suc i" "unat (word_of_nat (Suc j) :: u64) = Suc j"
      by (rule unat_of_nat_small; use that assms in simp)+
    then show ?thesis using that(3) by (metis Suc_inject)
  qed
  then show ?thesis
    by (auto simp: nonces_def distinct_map inj_on_def get_nonce_inj simp del: of_nat_Suc)
qed

text \<open>
  What the stream relies on in the \<open>Framed\<close> below it: a link delivers what was sent, in order. \<open>queue\<close>
  is what is in flight, \<open>good\<close> the link's invariant. The two ends have a contract each.
\<close>

locale fifo_source =
  fixes env :: "('f, 'k) tcp_env"
    and queue :: "'f \<Rightarrow> bytes list"
    and good :: "'f \<Rightarrow> bool"
    and sendable :: "bytes \<Rightarrow> bool"
  assumes fsend_law: "good f \<Longrightarrow> sendable m \<Longrightarrow>
      \<exists>f'. fsend env f m = (Inr (), f') \<and> good f' \<and> queue f' = queue f @ [m]"
begin

lemma send_raw_secured:
  assumes "good (inner s)" "key s = Some (k, c, r)" "unat c + 1 < 2 ^ 64"
    and "sendable (seal env m (get_nonce env (c + 1)) k)"
  shows "\<exists>s'. send_raw env s m = Ret (Inr (), s') \<and> good (inner s') \<and> key s' = Some (k, c + 1, r) \<and>
    queue (inner s') = queue (inner s) @ [seal env m (get_nonce env (c + 1)) k]"
proof -
  obtain f' where "fsend env (inner s) (seal env m (get_nonce env (c + 1)) k) = (Inr (), f')" "good f'"
      "queue f' = queue (inner s) @ [seal env m (get_nonce env (c + 1)) k]"
    using fsend_law [OF assms(1,4)] by blast
  then show ?thesis using assms by (simp add: send_raw_def send_bytes_def Let_def)
qed

lemma send_all_secured:
  assumes "good (inner s)" "key s = Some (k, c, r)" "unat c + length ms < 2 ^ 64"
    and "\<forall>m \<in> set ms. \<forall>n. sendable (seal env m n k)"
  shows "\<exists>s'. send_all env s ms = Ret (Inr s') \<and> good (inner s') \<and>
    key s' = Some (k, c + word_of_nat (length ms), r) \<and>
    queue (inner s') = queue (inner s) @ sealed env k c ms"
  using assms
proof (induction ms arbitrary: s c)
  case (Cons m ms)
  obtain s1 where s1: "send_raw env s m = Ret (Inr (), s1)" "good (inner s1)" "key s1 = Some (k, c + 1, r)"
      "queue (inner s1) = queue (inner s) @ [seal env m (get_nonce env (c + 1)) k]"
    using send_raw_secured [of s k c r m] Cons.prems by auto
  have "unat (c + 1) + length ms < 2 ^ 64"
    using Cons.prems(3) by (simp add: unat_word_ariths)
  then show ?case using Cons.IH [OF s1(2,3)] Cons.prems s1 by (auto simp: algebra_simps)
qed simp

end

locale fifo_sink =
  fixes env :: "('f, 'k) tcp_env"
    and queue :: "'f \<Rightarrow> bytes list"
    and good :: "'f \<Rightarrow> bool"
  assumes fnext_law: "good f \<Longrightarrow> queue f = m # q \<Longrightarrow>
      \<exists>f'. fnext env f = (Some (Inr m), f') \<and> good f' \<and> queue f' = q"
begin

lemma next_msg_secured:
  assumes "good (inner s)" "key s = Some (k, t, c)" "unat c + 1 < 2 ^ 64"
    and "queue (inner s) = seal env m (get_nonce env (c + 1)) k # q"
    and "sopen env (seal env m (get_nonce env (c + 1)) k) (get_nonce env (c + 1)) k = Some m"
  shows "\<exists>s'. next_msg env s = Ret (Some (Inr m), s') \<and> good (inner s') \<and>
    key s' = Some (k, t, c + 1) \<and> queue (inner s') = q"
proof -
  obtain f' where "fnext env (inner s) = (Some (Inr (seal env m (get_nonce env (c + 1)) k)), f')" "good f'"
      "queue f' = q"
    using fnext_law [OF assms(1,4)] by blast
  then show ?thesis using assms by (simp add: next_msg_def Let_def)
qed

lemma recv_all_secured:
  assumes "good (inner s)" "key s = Some (k, t, c)" "unat c + length ms < 2 ^ 64"
    and "queue (inner s) = sealed env k c ms @ q"
    and "\<forall>m n. sopen env (seal env m n k) n k = Some m"
  shows "\<exists>s'. recv_all env s (length ms) = Ret (Some (ms, s')) \<and> good (inner s') \<and>
    key s' = Some (k, t, c + word_of_nat (length ms)) \<and> queue (inner s') = q"
  using assms
proof (induction ms arbitrary: s c)
  case (Cons m ms)
  obtain s1 where s1: "next_msg env s = Ret (Some (Inr m), s1)" "good (inner s1)" "key s1 = Some (k, t, c + 1)"
      "queue (inner s1) = sealed env k (c + 1) ms @ q"
    using next_msg_secured [of s k t c m "sealed env k (c + 1) ms @ q"] Cons.prems by auto
  have "unat (c + 1) + length ms < 2 ^ 64"
    using Cons.prems(3) by (simp add: unat_word_ariths)
  then show ?case using Cons.IH [OF s1(2,3)] Cons.prems s1 by (auto simp: algebra_simps)
qed simp

end

locale fifo_link = fifo_source env queue good sendable + fifo_sink env queue good
  for env :: "('f, 'k) tcp_env" and queue :: "'f \<Rightarrow> bytes list" and good :: "'f \<Rightarrow> bool" and sendable :: "bytes \<Rightarrow> bool"

section \<open>The link the byte codec makes\<close>

text \<open>
  One direction of a connection: the sender's codec, the bytes encoded and not yet decoded, the
  receiver's codec. Encoding and decoding are the code's.
\<close>

record pipe =
  tx :: bytes_codec
  wire :: bytes
  rx :: bytes_codec

definition pipe_new :: pipe where
  "pipe_new = \<lparr>tx = codec_new, wire = [], rx = codec_new\<rparr>"

definition pipe_send :: "pipe \<Rightarrow> bytes \<Rightarrow> (io_error + unit) \<times> pipe" where
  "pipe_send p m = (let (r, buf) = encode (tx p) m (wire p) in (r, p\<lparr>wire := buf\<rparr>))"

definition pipe_next :: "pipe \<Rightarrow> (io_error + bytes) option \<times> pipe" where
  "pipe_next p =
     (let (r, c, buf) = decode (rx p) (wire p); p' = p\<lparr>rx := c, wire := buf\<rparr> in
      (case r of Inl e \<Rightarrow> Some (Inl e) | Inr None \<Rightarrow> None | Inr (Some m) \<Rightarrow> Some (Inr m), p'))"

definition pipe_set_raw :: "pipe \<Rightarrow> pipe" where
  "pipe_set_raw p = p\<lparr>tx := codec_set_raw (tx p), rx := codec_set_raw (rx p)\<rparr>"

definition pipe_env :: "(bytes \<Rightarrow> bytes \<Rightarrow> 'k \<Rightarrow> bytes) \<Rightarrow> (bytes \<Rightarrow> bytes \<Rightarrow> 'k \<Rightarrow> bytes option) \<Rightarrow>
    endian \<Rightarrow> bool \<Rightarrow> (pipe, 'k) tcp_env" where
  "pipe_env sl op ne ck = \<lparr>fsend = pipe_send, fnext = pipe_next, fset_raw = pipe_set_raw,
     seal = sl, sopen = op, byte_order = ne, nonce_bytes = 24, checks = ck\<rparr>"

definition frames :: "bytes list \<Rightarrow> bytes" where
  "frames ds = concat (map (\<lambda>d. header (length d) @ d) ds)"

definition pipe_queue :: "pipe \<Rightarrow> bytes list" where
  "pipe_queue p = fst (decode_all (rx p) (wire p))"

definition pipe_good :: "pipe \<Rightarrow> bool" where
  "pipe_good p \<longleftrightarrow> tx p = codec_new \<and> rx p = codec_new \<and>
     (\<exists>ds. (\<forall>d \<in> set ds. fits codec_new d) \<and> wire p = frames ds)"

lemma codec_new_simps [simp]: "\<not> raw codec_new" "state codec_new = Head"
  by (simp_all add: codec_new_def)

lemma pipe_queue_frames:
  "rx p = codec_new \<Longrightarrow> \<forall>d \<in> set ds. fits codec_new d \<Longrightarrow> wire p = frames ds \<Longrightarrow> pipe_queue p = ds"
  by (simp add: pipe_queue_def frames_def decode_all_frames)

lemma pipe_send_law:
  assumes "pipe_good p" "fits codec_new m"
  shows "\<exists>p'. pipe_send p m = (Inr (), p') \<and> pipe_good p' \<and> pipe_queue p' = pipe_queue p @ [m]"
proof -
  obtain ds where p: "tx p = codec_new" "rx p = codec_new" "\<forall>d \<in> set ds. fits codec_new d"
      "wire p = frames ds"
    using assms(1) by (auto simp: pipe_good_def)
  let ?p' = "p\<lparr>wire := frames (ds @ [m])\<rparr>"
  have fits: "\<forall>d \<in> set (ds @ [m]). fits codec_new d" using p assms(2) by simp
  have "encode codec_new m (wire p) = (Inr (), wire p @ header (length m) @ m)"
    by (rule encode_frame) (use assms(2) in \<open>auto intro: fits_len\<close>)
  then have "pipe_send p m = (Inr (), ?p')" using p by (simp add: pipe_send_def frames_def)
  moreover have "pipe_good ?p'" unfolding pipe_good_def using p fits by (intro conjI exI [of _ "ds @ [m]"]) auto
  moreover have "pipe_queue ?p' = pipe_queue p @ [m]"
    using pipe_queue_frames [of ?p', OF _ fits] pipe_queue_frames [of p, OF p(2-4)] p by simp
  ultimately show ?thesis by blast
qed

lemma pipe_next_law:
  assumes "pipe_good p" "pipe_queue p = m # q"
  shows "\<exists>p'. pipe_next p = (Some (Inr m), p') \<and> pipe_good p' \<and> pipe_queue p' = q"
proof -
  obtain ds where p: "tx p = codec_new" "rx p = codec_new" "\<forall>d \<in> set ds. fits codec_new d"
      "wire p = frames ds"
    using assms(1) by (auto simp: pipe_good_def)
  then have ds: "ds = m # q" using pipe_queue_frames [of p ds] assms(2) by simp
  let ?p' = "p\<lparr>wire := frames q\<rparr>"
  have "decode codec_new (header (length m) @ m @ frames q) = (Inr (Some m), codec_new, frames q)"
    by (rule decode_frame) (use p ds in \<open>auto intro: fits_len fits_word\<close>)
  then have "pipe_next p = (Some (Inr m), ?p')" using p ds by (simp add: pipe_next_def frames_def Let_def)
  moreover have "pipe_good ?p'" unfolding pipe_good_def using p ds by (intro conjI exI [of _ q]) auto
  moreover have "pipe_queue ?p' = q" using pipe_queue_frames [of ?p' q] p ds by simp
  ultimately show ?thesis by blast
qed

interpretation coded: fifo_link "pipe_env sl op ne ck" pipe_queue pipe_good "fits codec_new"
  for sl op ne ck
proof unfold_locales
  fix p m q
  show "pipe_good p \<Longrightarrow> fits codec_new m \<Longrightarrow>
      \<exists>p'. fsend (pipe_env sl op ne ck) p m = (Inr (), p') \<and> pipe_good p' \<and> pipe_queue p' = pipe_queue p @ [m]"
    by (simp add: pipe_env_def pipe_send_law)
  show "pipe_good p \<Longrightarrow> pipe_queue p = m # q \<Longrightarrow>
      \<exists>p'. fnext (pipe_env sl op ne ck) p = (Some (Inr m), p') \<and> pipe_good p' \<and> pipe_queue p' = q"
    by (simp add: pipe_env_def pipe_next_law)
qed


section \<open>Properties\<close>

lemma pipe_env_simps [simp]:
  "seal (pipe_env sl op ne ck) = sl" "sopen (pipe_env sl op ne ck) = op"
  by (simp_all add: pipe_env_def)

text \<open>
  C10: An encrypted connection works end to end: when both sides hold the same key and the receiver's
  counter equals the sender's, every list of messages sent (sealed, framed, and cut up by the codec)
  is received, decrypted, in order and unchanged; nothing is left over and the counters agree again,
  so the connection can go on.
\<close>

theorem secure_channel:
  assumes "\<forall>m n. op (sl m n k) n k = Some m"
    and "\<forall>m \<in> set ms. \<forall>n. fits codec_new (sl m n k)"
    and "key a = Some (k, c, r)" "key b = Some (k, t, c)" "unat c + length ms < 2 ^ 64"
    and "pipe_good (inner a)" "pipe_queue (inner a) = []"
  shows "\<exists>a' b'. send_all (pipe_env sl op ne ck) a ms = Ret (Inr a') \<and>
    recv_all (pipe_env sl op ne ck) (b\<lparr>inner := inner a'\<rparr>) (length ms) = Ret (Some (ms, b')) \<and>
    key a' = Some (k, c + word_of_nat (length ms), r) \<and> key b' = Some (k, t, c + word_of_nat (length ms)) \<and>
    pipe_good (inner b') \<and> pipe_queue (inner b') = []"
proof -
  let ?env = "pipe_env sl op ne ck"
  obtain a' where a: "send_all ?env a ms = Ret (Inr a')" "pipe_good (inner a')"
      "key a' = Some (k, c + word_of_nat (length ms), r)" "pipe_queue (inner a') = sealed ?env k c ms"
    using coded.send_all_secured [OF assms(6,3,5), of sl op ne ck] assms(2,7) by auto
  obtain b' where "recv_all ?env (b\<lparr>inner := inner a'\<rparr>) (length ms) = Ret (Some (ms, b'))"
      "pipe_good (inner b')" "key b' = Some (k, t, c + word_of_nat (length ms))" "pipe_queue (inner b') = []"
    using coded.recv_all_secured [of "b\<lparr>inner := inner a'\<rparr>" k t c ms sl op ne ck "[]"] a assms by auto
  then show ?thesis using a by blast
qed

text \<open>A concrete box for the witnesses: the nonce and the key's byte in front of the message.\<close>

definition tag_seal :: "bytes \<Rightarrow> bytes \<Rightarrow> u8 \<Rightarrow> bytes" where
  "tag_seal m n k = [n ! 0, k] @ m"

definition tag_open :: "bytes \<Rightarrow> bytes \<Rightarrow> u8 \<Rightarrow> bytes option" where
  "tag_open ct n k = (if 2 \<le> length ct \<and> take 2 ct = [n ! 0, k] then Some (drop 2 ct) else None)"

lemma fits_codec_new: "fits codec_new d \<longleftrightarrow> length d \<le> 0x3FFFFFFF"
  by (auto simp: fits_def codec_new_def unsigned_minus_1_eq_mask mask_eq_exp_minus_1)

lemma pipe_good_new [simp]: "pipe_good pipe_new" "pipe_queue pipe_new = []"
proof -
  have "frames [] = []" by (simp add: frames_def)
  then show "pipe_good pipe_new" by (auto simp: pipe_good_def pipe_new_def intro!: exI [of _ "[]"])
  show "pipe_queue pipe_new = []"
    using pipe_queue_frames [of pipe_new "[]"] by (simp add: pipe_new_def frames_def)
qed

theorem secure_channel_witness:
  "\<exists>a' b'. send_all (pipe_env tag_seal tag_open Little True) (set_key (stream_from pipe_new) 7) [[1, 2], [], [3]] = Ret (Inr a') \<and>
    recv_all (pipe_env tag_seal tag_open Little True) (set_key (stream_from pipe_new) 7 \<lparr>inner := inner a'\<rparr>)
      (length [[1, 2], [], [3 :: u8]]) = Ret (Some ([[1, 2], [], [3]], b')) \<and>
    key a' = Some (7, 0 + word_of_nat (length [[1, 2], [], [3 :: u8]]), 0) \<and>
    key b' = Some (7, 0, 0 + word_of_nat (length [[1, 2], [], [3 :: u8]])) \<and>
    pipe_good (inner b') \<and> pipe_queue (inner b') = []"
proof (rule secure_channel)
  show "\<forall>m n. tag_open (tag_seal m n 7) n 7 = Some m" by (simp add: tag_open_def tag_seal_def)
  show "\<forall>m \<in> set [[1, 2], [], [3 :: u8]]. \<forall>n. fits codec_new (tag_seal m n 7)"
    by (simp add: fits_codec_new tag_seal_def)
qed (simp_all add: set_key_def stream_from_def)

text \<open>
  C30: A secured sender never uses a nonce twice with its key before its counter runs out: the frames
  it has put on the wire are the messages sealed under pairwise distinct nonces.
\<close>

theorem nonces_never_repeat:
  assumes "\<forall>m \<in> set ms. \<forall>n. fits codec_new (sl m n k)"
    and "key a = Some (k, c, r)" "unat c + length ms < 2 ^ 64"
    and "pipe_good (inner a)" "pipe_queue (inner a) = []"
  shows "\<exists>a' ns. send_all (pipe_env sl op ne ck) a ms = Ret (Inr a') \<and>
    pipe_queue (inner a') = map2 (\<lambda>m n. sl m n k) ms ns \<and>
    length ns = length ms \<and> distinct ns \<and> (\<forall>n \<in> set ns. length n = 24)"
proof -
  let ?env = "pipe_env sl op ne ck" and ?ns = "nonces (pipe_env sl op ne ck) c (length ms)"
  obtain a' where "send_all ?env a ms = Ret (Inr a')" "pipe_queue (inner a') = sealed ?env k c ms"
    using coded.send_all_secured [OF assms(4,2,3), of sl op ne ck] assms(1,5) by auto
  moreover have "distinct ?ns" using assms(3) by (intro distinct_nonces) simp
  moreover have "\<forall>n \<in> set ?ns. length n = 24"
    by (auto simp: nonces_def get_nonce_def pipe_env_def)
  ultimately show ?thesis
    by (intro exI [of _ a'] exI [of _ ?ns]) (simp add: sealed_def nonces_def)
qed

theorem nonces_never_repeat_witness:
  "\<exists>a' ns. send_all (pipe_env tag_seal tag_open Little True) (set_key (stream_from pipe_new) 7) [[1], [1]] = Ret (Inr a') \<and>
    pipe_queue (inner a') = map2 (\<lambda>m n. tag_seal m n 7) [[1], [1]] ns \<and>
    length ns = length [[1], [1 :: u8]] \<and> distinct ns"
proof -
  have "key (set_key (stream_from pipe_new) 7) = Some (7, 0, 0)" by (simp add: set_key_def)
  from nonces_never_repeat [OF _ this, where ms = "[[1], [1 :: u8]]" and sl = tag_seal and op = tag_open and ne = Little and ck = True]
  show ?thesis by (simp add: fits_codec_new tag_seal_def set_key_def stream_from_def) blast
qed



text \<open>
  After \<open>set_raw\<close> a stream is transparent: it holds no key, \<open>send_raw\<close> and \<open>send_bytes\<close> both put
  the bytes on the wire as they are, and \<open>next\<close> hands over what has arrived, whatever the key before.
\<close>

theorem raw_stream_transparent:
  "\<not> is_secured (set_raw (pipe_env sl op ne ck) s)
   \<and> send_raw (pipe_env sl op ne ck) (set_raw (pipe_env sl op ne ck) s) m =
       Ret (send_bytes (pipe_env sl op ne ck) (set_raw (pipe_env sl op ne ck) s) m)
   \<and> wire (inner (snd (send_bytes (pipe_env sl op ne ck) (set_raw (pipe_env sl op ne ck) s) m))) = wire (inner s) @ m
   \<and> (\<exists>s'. next_msg (pipe_env sl op ne ck) (set_raw (pipe_env sl op ne ck) s) =
       Ret (if wire (inner s) = [] then None else Some (Inr (wire (inner s))), s') \<and> wire (inner s') = [])"
  by (auto simp: is_secured_def set_raw_def send_raw_def send_bytes_def next_msg_def pipe_env_def pipe_next_def
      pipe_send_def pipe_set_raw_def codec_set_raw_def encode_def decode_def Let_def)

lemma connect_remotes_refused:
  assumes "sock l = Inr sk" "\<forall>r \<in> set pre. \<exists>e. connect sk r = Refused e"
  shows "connect_remotes connect sock l (pre @ rs) = connect_remotes connect sock l rs"
  using assms by (induction pre) auto

text \<open>
  Connecting tries the remote addresses in the order they were resolved: refused attempts are
  passed over, the first that connects becomes an unencrypted stream, and the first that times out
  ends the search with an error, whatever addresses are left.
\<close>

theorem connect_first:
  assumes "sock l = Inr sk" "remotes l = Inr (pre @ r # rest)" "\<forall>r \<in> set pre. \<exists>e. connect sk r = Refused e"
    and "\<forall>e. connect sk r \<noteq> Refused e"
  shows "stream_new connect sock remotes (Inr (l # ls)) =
    (case connect sk r of TimedOut \<Rightarrow> Inl Elapsed | Connected f \<Rightarrow> Inr (stream_from f))"
  using assms
  by (auto simp: stream_new_def connect_remotes_refused [where sock = sock and sk = sk] split: attempt.splits)

theorem connect_first_witness:
  "stream_new (\<lambda>_ a. if a = V4 (0, 0, 0, 1) 1 then Refused (IoError OtherKind []) else Connected ())
     (\<lambda>_. Inr ()) (\<lambda>_. Inr ([V4 (0, 0, 0, 1) 1] @ V4 (0, 0, 0, 2) 2 # [])) (Inr (V4 (0, 0, 0, 0) 0 # [])) =
    (case (if V4 (0, 0, 0, 2) 2 = V4 (0, 0, 0, 1) 1 then Refused (IoError OtherKind []) else Connected ()) of
       TimedOut \<Rightarrow> Inl Elapsed | Connected f \<Rightarrow> Inr (stream_from f))"
  by (rule connect_first [where pre = "[V4 (0, 0, 0, 1) 1]" and r = "V4 (0, 0, 0, 2) 2" and rest = "[]" and
      sk = "()"]) auto

end
