(* ===== verification/Remote_Transfer.thy ===== *)
theory Remote_Transfer imports File_Errors Framed_Stream begin

text \<open>
  A file transfer between two ends of a connection: the reading end serves its job with
  \<open>handle_read_jobs\<close> (\<open>libs/hbb_common/src/fs.rs\<close>), whose messages go out over an encrypted
  \<open>FramedStream\<close> (\<open>tcp.rs\<close>, \<open>bytes_codec.rs\<close>); the other end receives them and writes the blocks. The two ends step in turn, or each on its own.
  \<open>ser\<close> and \<open>parse\<close> are the generated serialiser and parser of messages.
\<close>

section \<open>One message\<close>

text \<open>\<open>FramedStream::send\<close> as the code that serves jobs calls it; a stream is gone when sending panicked.\<close>

definition stream_send :: "('f, 'k) tcp_env \<Rightarrow> (message \<Rightarrow> bytes) \<Rightarrow> ('f, 'k) framed_stream option \<Rightarrow> message \<Rightarrow>
    (anyhow_error + unit) \<times> ('f, 'k) framed_stream option" where
  "stream_send env ser s msg =
     (case s of
        None \<Rightarrow> (Inl Elapsed, None)
      | Some st \<Rightarrow> (case send env st (Inr (ser msg)) of Ret (r, st') \<Rightarrow> (r, Some st') | Panic \<Rightarrow> (Inl Elapsed, None)))"

text \<open>Two ends that agree on the key and the position, with nothing in flight and room for \<open>n\<close> messages.\<close>

definition in_step :: "'k \<Rightarrow> u64 \<Rightarrow> nat \<Rightarrow> (pipe, 'k) framed_stream \<Rightarrow> (pipe, 'k) framed_stream \<Rightarrow> bool" where
  "in_step k c n a b \<longleftrightarrow>
     (\<exists>r t. key a = Some (k, c, r) \<and> key b = Some (k, t, c)) \<and> unat c + n < 2 ^ 64 \<and>
     pipe_good (inner a) \<and> pipe_queue (inner a) = []"

lemma one_message:
  assumes "\<forall>m n. op (sl m n k) n k = Some m" "in_step k c (Suc n) a b"
    and "\<forall>n. fits codec_new (sl (ser msg) n k)"
  obtains a1 b1 where "stream_send (pipe_env sl op ne ck) ser (Some a) msg = (Inr (), Some a1)"
    "next_msg (pipe_env sl op ne ck) (b\<lparr>inner := inner a1\<rparr>) = Ret (Some (Inr (ser msg)), b1)"
    "in_step k (c + 1) n (a1\<lparr>inner := inner b1\<rparr>) b1"
proof -
  let ?env = "pipe_env sl op ne ck"
  obtain r t where keys: "key a = Some (k, c, r)" "key b = Some (k, t, c)" using assms(2) by (auto simp: in_step_def)
  have c: "unat c + 1 < 2 ^ 64" "unat (c + 1) + n < 2 ^ 64"
    using assms(2) by (auto simp: in_step_def unat_word_ariths)
  obtain a1 where a1: "send_raw ?env a (ser msg) = Ret (Inr (), a1)" "pipe_good (inner a1)" "key a1 = Some (k, c + 1, r)"
      "pipe_queue (inner a1) = [sl (ser msg) (get_nonce ?env (c + 1)) k]"
    using coded.send_raw_secured [of a k c r sl op ne ck "ser msg"] keys c(1) assms(2,3) by (auto simp: in_step_def)
  obtain b1 where b1: "next_msg ?env (b\<lparr>inner := inner a1\<rparr>) = Ret (Some (Inr (ser msg)), b1)" "pipe_good (inner b1)"
      "key b1 = Some (k, t, c + 1)" "pipe_queue (inner b1) = []"
    using coded.next_msg_secured [of "b\<lparr>inner := inner a1\<rparr>" k t c sl op ne ck "ser msg" "[]"] a1 keys c(1) assms(1) by auto
  show ?thesis
    by (rule that [of a1 b1]) (use a1 b1 c(2) in \<open>simp_all add: stream_send_def send_def in_step_def\<close>)
qed

section \<open>Blocks\<close>

lemma job_read_length:
  assumes "job_read zc job d = (Inr (Some blk), job', d')"
  shows "length (blk_data blk) \<le> BUF_SIZE"
  using assms by (cases rule: job_read_cases) (auto dest!: read_block_length)

text \<open>After the number of rounds the lengths call for, the reading job is over and every file is there.\<close>

lemma whole_copy:
  assumes "good_zstd zc zd" "length cs < 2 ^ 31" "cs \<noteq> []" "at_file rj rd cs 0" "destination wj wd" "ready wj wd 0"
      "tj_file wj = None" "tj_file_num wj = 0" "tj_id wj = tj_id rj" "length (tj_files wj) = length cs"
    and rounds: "rounds = (\<Sum>c\<leftarrow>cs. (length c + 131071) div 131072 + 1)"
  obtains rj' rd' wj' wd' where "copy_blocks rounds zc zd (rj, rd) (wj, wd) = Some ((rj', rd'), (wj', wd'))"
    "job_read zc rj' rd' = (Inr None, rj'\<lparr>tj_file := None\<rparr>, rd')"
    "tj_id rj' = tj_id rj" "tj_file_num rj' = word_of_nat (length cs)"
    "\<forall>j < length cs. published wj' (modify_time wj' wd') j (cs ! j)"
proof -
  have start: "before wj wd cs 0" using assms(5-8) by simp
  have sum: "(\<Sum>j < length cs. blocks_of (length (cs ! j))) = rounds"
    by (simp add: rounds sum_list_sum_nth blocks_of_def BUF_SIZE_def atLeast0LessThan)
  obtain rj' rd' wj' wd' where run: "copy_blocks rounds zc zd (rj, rd) (wj, wd) = Some ((rj', rd'), (wj', wd'))"
      "at_file rj' rd' cs (length cs)" "same_job rj rj'" "before wj' wd' cs (length cs)"
    using copy_all [OF assms(1) order_refl assms(2,4) start assms(9,10)] unfolding sum by blast
  obtain m where "length cs = Suc m" using assms(3) by (cases "length cs") auto
  moreover from this have "midway wj' wd' cs m (cs ! m)" using run(4) by simp
  ultimately have "\<forall>j < length cs. published wj' (modify_time wj' wd') j (cs ! j)" using midway_publish(3) by fastforce
  moreover have "job_read zc rj' rd' = (Inr None, rj'\<lparr>tj_file := None\<rparr>, rd')" "tj_id rj' = tj_id rj"
      "tj_file_num rj' = word_of_nat (length cs)"
    using run(2,3) assms(2) by (simp_all add: at_file_def job_read_def same_job_def)
  ultimately show ?thesis using that run(1) by blast
qed

section \<open>Copying over the connection\<close>

text \<open>\<open>n\<close> rounds: the job is served once, and the message that arrives is written if it is a block.\<close>

fun remote_copy :: "nat \<Rightarrow> ('e, ('f, 'k) framed_stream option) serve_env \<Rightarrow> 'd decompressor \<Rightarrow> ('f, 'k) tcp_env \<Rightarrow>
    (bytes \<Rightarrow> string + message) \<Rightarrow> transfer_job \<times> disk \<Rightarrow> transfer_job \<times> disk \<Rightarrow>
    ('f, 'k) framed_stream \<Rightarrow> ('f, 'k) framed_stream \<Rightarrow>
    ((transfer_job \<times> disk) \<times> (transfer_job \<times> disk) \<times> ('f, 'k) framed_stream \<times> ('f, 'k) framed_stream) option" where
  "remote_copy 0 senv zd env parse r w a b = Some (r, w, a, b)"
| "remote_copy (Suc n) senv zd env parse (rj, rd) (wj, wd) a b =
     (case handle_read_jobs senv [rj] (Some a) rd of
        (Inr _, [rj1], Some a1, rd1) \<Rightarrow>
          (case next_msg env (b\<lparr>inner := inner a1\<rparr>) of
             Ret (Some (Inr bs), b1) \<Rightarrow>
               (case parse bs of
                  Inr (FileResponse (RespBlock blk)) \<Rightarrow>
                    (case job_write zd wj wd blk of
                       Ret (Inr _, wj1, wd1) \<Rightarrow>
                         remote_copy n senv zd env parse (rj1, rd1) (wj1, wd1) (a1\<lparr>inner := inner b1\<rparr>) b1
                     | _ \<Rightarrow> None)
                | _ \<Rightarrow> None)
           | _ \<Rightarrow> None)
      | _ \<Rightarrow> None)"

lemma serve_block:
  assumes "job_read zc rj rd = (Inr (Some blk), rj1, rd1)" "snd_msg a (new_block blk) = (Inr (), a1)"
  shows "handle_read_jobs \<lparr>zcomp = zc, show_error = shw, send_msg = snd_msg\<rparr> [rj] a rd = (Inr (), [rj1], a1, rd1)"
  using assms by (simp add: handle_read_jobs_def read_reply_def)

lemma serve_done:
  assumes "job_read zc rj rd = (Inr None, rj1, rd1)" "snd_msg a (new_done (tj_id rj1) (tj_file_num rj1)) = (Inr (), a1)"
  shows "handle_read_jobs \<lparr>zcomp = zc, show_error = shw, send_msg = snd_msg\<rparr> [rj] a rd = (Inr (), [], a1, rd1)"
  using assms by (simp add: handle_read_jobs_def read_reply_def remove_job_def)

text \<open>What travels over the connection is what is handed over directly.\<close>

lemma remote_copy_blocks:
  assumes box: "\<forall>m n. op (sl m n k) n k = Some m"
    and fit: "\<forall>blk n. length (blk_data blk) \<le> BUF_SIZE \<longrightarrow> fits codec_new (sl (ser (new_block blk)) n k)"
    and gen: "\<forall>blk. parse (ser (new_block blk)) = Inr (new_block blk)"
    and run: "copy_blocks n zc zd (rj, rd) (wj, wd) = Some (r', w')" "in_step k c (n + m) a b"
  shows "\<exists>a' b'. remote_copy n \<lparr>zcomp = zc, show_error = shw, send_msg = stream_send (pipe_env sl op ne ck) ser\<rparr> zd
      (pipe_env sl op ne ck) parse (rj, rd) (wj, wd) a b = Some (r', w', a', b') \<and> in_step k (c + word_of_nat n) m a' b'"
  using run
proof (induction n arbitrary: rj rd wj wd c a b)
  case (Suc n)
  obtain blk rj1 rd1 wj1 wd1 where 1: "job_read zc rj rd = (Inr (Some blk), rj1, rd1)"
      "job_write zd wj wd blk = Ret (Inr (), wj1, wd1)" "copy_blocks n zc zd (rj1, rd1) (wj1, wd1) = Some (r', w')"
    using Suc.prems(1) by (auto split: prod.splits sum.splits option.splits outcome.splits)
  have "\<forall>n. fits codec_new (sl (ser (new_block blk)) n k)" using fit job_read_length [OF 1(1)] by blast
  then obtain a1 b1 where 2: "stream_send (pipe_env sl op ne ck) ser (Some a) (new_block blk) = (Inr (), Some a1)"
      "next_msg (pipe_env sl op ne ck) (b\<lparr>inner := inner a1\<rparr>) = Ret (Some (Inr (ser (new_block blk))), b1)"
      "in_step k (c + 1) (n + m) (a1\<lparr>inner := inner b1\<rparr>) b1"
    using one_message [where ser = ser and msg = "new_block blk" and n = "n + m" and sl = sl and op = op and k = k and
        ne = ne and ck = ck, OF box] Suc.prems(2) by (metis add_Suc)
  have "parse (ser (new_block blk)) = Inr (FileResponse (RespBlock blk))" using gen by (simp add: new_block_def)
  then show ?case
    using Suc.IH [OF 1(3) 2(3)] serve_block [OF 1(1), of "stream_send (pipe_env sl op ne ck) ser" "Some a" "Some a1" shw] 2(1) 1(2) 2(2) by (auto simp: algebra_simps)
qed simp

section \<open>A concrete serialiser, for the witness\<close>

definition demo_ser :: "message \<Rightarrow> bytes" where
  "demo_ser msg =
     (case msg of
        FileResponse (RespBlock blk) \<Rightarrow>
          [1, of_bool (compressed blk)] @ to_le_bytes (blk_id blk) @ to_le_bytes (blk_file_num blk) @ blk_data blk
      | FileResponse (RespDone d) \<Rightarrow> [0, 0] @ to_le_bytes (done_id d) @ to_le_bytes (done_file_num d)
      | _ \<Rightarrow> [])"

definition demo_unser :: "bytes \<Rightarrow> string + message" where
  "demo_unser bs =
     (let i = from_le_bytes (take 4 (drop 2 bs)); num = from_le_bytes (take 4 (drop 6 bs)) in
      if bs ! 0 = 1 then
        Inr (new_block \<lparr>blk_id = i, blk_file_num = num, blk_data = drop 10 bs, compressed = (bs ! 1 = 1)\<rparr>)
      else Inr (new_done i num))"

lemma demo_unser_ser:
  "demo_unser (demo_ser (new_block blk)) = Inr (new_block blk)" "demo_unser (demo_ser (new_done i j)) = Inr (new_done i j)"
  by (simp_all add: demo_unser_def demo_ser_def new_block_def new_done_def Let_def)

lemma demo_ser_fits:
  "length (blk_data blk) \<le> BUF_SIZE \<Longrightarrow> fits codec_new (tag_seal (demo_ser (new_block blk)) n k)"
  "fits codec_new (tag_seal (demo_ser (new_done i j)) n k)"
  by (simp_all add: fits_codec_new tag_seal_def demo_ser_def new_block_def new_done_def BUF_SIZE_def)

section \<open>The two ends apart\<close>

text \<open>The reading end alone: its jobs are served \<open>n\<close> times; and the writing end alone, with the blocks that arrive.\<close>

fun serve_rounds :: "nat \<Rightarrow> ('e, 's) serve_env \<Rightarrow> transfer_job list \<Rightarrow> 's \<Rightarrow> disk \<Rightarrow>
    (anyhow_error + unit) \<times> transfer_job list \<times> 's \<times> disk" where
  "serve_rounds 0 env jobs s d = (Inr (), jobs, s, d)"
| "serve_rounds (Suc n) env jobs s d =
     (case handle_read_jobs env jobs s d of
        (Inl e, jobs1, s1, d1) \<Rightarrow> (Inl e, jobs1, s1, d1)
      | (Inr _, jobs1, s1, d1) \<Rightarrow> serve_rounds n env jobs1 s1 d1)"

fun write_blocks :: "'e decompressor \<Rightarrow> transfer_job \<times> disk \<Rightarrow> file_transfer_block list \<Rightarrow> (transfer_job \<times> disk) option" where
  "write_blocks zd w [] = Some w"
| "write_blocks zd (job, d) (blk # blks) =
     (case job_write zd job d blk of
        Ret (Inr _, job1, d1) \<Rightarrow> write_blocks zd (job1, d1) blks
      | _ \<Rightarrow> None)"

lemma copy_blocks_apart:
  assumes "copy_blocks n zc zd (rj, rd) w = Some ((rj', rd'), w')"
  obtains blks where "length blks = n" "\<forall>blk \<in> set blks. length (blk_data blk) \<le> BUF_SIZE"
    "read_times n zc rj rd = (map (Inr \<circ> Some) blks, rj', rd')" "write_blocks zd w blks = Some w'"
  using assms
proof (induction n arbitrary: rj rd w thesis)
  case 0
  then show ?case by simp
next
  case (Suc n)
  obtain wj wd where w: "w = (wj, wd)" by fastforce
  obtain blk rj1 rd1 wj1 wd1 where 1: "job_read zc rj rd = (Inr (Some blk), rj1, rd1)"
      "job_write zd wj wd blk = Ret (Inr (), wj1, wd1)" "copy_blocks n zc zd (rj1, rd1) (wj1, wd1) = Some ((rj', rd'), w')"
    using Suc.prems(2) w by (auto split: prod.splits sum.splits option.splits outcome.splits)
  obtain blks where "length blks = n" "\<forall>blk \<in> set blks. length (blk_data blk) \<le> BUF_SIZE"
      "read_times n zc rj1 rd1 = (map (Inr \<circ> Some) blks, rj', rd')" "write_blocks zd (wj1, wd1) blks = Some w'"
    by (rule Suc.IH [OF _ 1(3)])
  then show ?case using Suc.prems(1) [of "blk # blks"] 1(1,2) job_read_length [OF 1(1)] w by simp
qed

lemma send_all_ConsE:
  assumes "send_all env a (ser msg # ms) = Ret (Inr a')"
  obtains a1 where "stream_send env ser (Some a) msg = (Inr (), Some a1)" "send_all env a1 ms = Ret (Inr a')"
  using assms by (cases "send_raw env a (ser msg)") (auto simp: stream_send_def send_def split: sum.splits)

text \<open>Serving sends the blocks that reading gives, and then that it is done, in this order.\<close>

lemma serve_sends:
  assumes "read_times n zc rj rd = (map (Inr \<circ> Some) blks, rj1, rd1)" "job_read zc rj1 rd1 = (Inr None, rj2, rd2)"
    and "send_all env a (map (\<lambda>blk. ser (new_block blk)) blks @ [ser (new_done (tj_id rj2) (tj_file_num rj2))]) = Ret (Inr a')"
  shows "serve_rounds (Suc n) \<lparr>zcomp = zc, show_error = shw, send_msg = stream_send env ser\<rparr> [rj] (Some a) rd =
    (Inr (), [], Some a', rd2)"
  using assms
proof (induction n arbitrary: rj rd a blks)
  case 0
  then obtain a1 where "stream_send env ser (Some a) (new_done (tj_id rj2) (tj_file_num rj2)) = (Inr (), Some a1)"
      "send_all env a1 [] = Ret (Inr a')"
    by (auto simp del: send_all.simps elim: send_all_ConsE)
  then show ?case using serve_done [of zc rj rd rj2 rd2 "stream_send env ser" "Some a" "Some a'" shw] 0(1,2) by simp
next
  case (Suc n)
  obtain blk blks' rj0 rd0 where b: "blks = blk # blks'" "job_read zc rj rd = (Inr (Some blk), rj0, rd0)"
      "read_times n zc rj0 rd0 = (map (Inr \<circ> Some) blks', rj1, rd1)"
    using Suc.prems(1) by (auto split: prod.splits)
  then obtain a0 where "stream_send env ser (Some a) (new_block blk) = (Inr (), Some a0)"
      "send_all env a0 (map (\<lambda>blk. ser (new_block blk)) blks' @ [ser (new_done (tj_id rj2) (tj_file_num rj2))]) = Ret (Inr a')"
    using Suc.prems(3) by (auto simp del: send_all.simps elim: send_all_ConsE)
  then show ?case
    using serve_block [OF b(2), of "stream_send env ser" "Some a" "Some a0" shw] Suc.IH [OF b(3) Suc.prems(2), of a0]
    by simp
qed

end
