(* ===== verification/Relay_Channel.thy ===== *)
theory Relay_Channel imports Framed_Stream Server_Props begin

text \<open>
  The receiving end of a connection as the network feeds it: \<open>tokio_util\<close>'s \<open>Framed\<close> decodes what it has
  buffered and reads another chunk when that is not a whole frame. It is a second instance of the
  contract the stream (\<open>tcp.rs\<close>) relies on, and what is needed to follow a message through the relay of
  \<open>main.rs\<close>, which cuts the bytes in its own way.
\<close>

section \<open>A link fed in chunks\<close>

record link =
  codec :: bytes_codec
  buffer :: bytes
  coming :: "bytes list"

definition link_new :: "bytes list \<Rightarrow> link" where
  "link_new chunks = \<lparr>codec = codec_new, buffer = [], coming = chunks\<rparr>"

fun link_read :: "bytes_codec \<Rightarrow> bytes \<Rightarrow> bytes list \<Rightarrow> (io_error + bytes) option \<times> link" where
  "link_read c buf chs =
     (case decode c buf of
        (Inl e, c', buf') \<Rightarrow> (Some (Inl e), \<lparr>codec = c', buffer = buf', coming = chs\<rparr>)
      | (Inr (Some m), c', buf') \<Rightarrow> (Some (Inr m), \<lparr>codec = c', buffer = buf', coming = chs\<rparr>)
      | (Inr None, c', buf') \<Rightarrow>
          (case chs of
             [] \<Rightarrow> (None, \<lparr>codec = c', buffer = buf', coming = []\<rparr>)
           | ch # chs' \<Rightarrow> link_read c' (buf' @ ch) chs'))"

declare link_read.simps [simp del]

definition link_next :: "link \<Rightarrow> (io_error + bytes) option \<times> link" where
  "link_next l = link_read (codec l) (buffer l) (coming l)"

text \<open>Only the receiving side is used, so sending is refused.\<close>

definition link_env :: "(bytes \<Rightarrow> bytes \<Rightarrow> 'k \<Rightarrow> bytes) \<Rightarrow> (bytes \<Rightarrow> bytes \<Rightarrow> 'k \<Rightarrow> bytes option) \<Rightarrow>
    endian \<Rightarrow> bool \<Rightarrow> (link, 'k) tcp_env" where
  "link_env sl op ne ck =
     \<lparr>fsend = (\<lambda>l _. (Inl (IoError OtherKind []), l)), fnext = link_next, fset_raw = (\<lambda>l. l\<lparr>codec := codec_set_raw (codec l)\<rparr>),
      seal = sl, sopen = op, byte_order = ne, nonce_bytes = 24, checks = ck\<rparr>"

definition link_queue :: "link \<Rightarrow> bytes list" where
  "link_queue l = fst (decode_all (codec l) (buffer l @ concat (coming l)))"

lemma link_read_law:
  assumes "\<not> raw c" "fst (decode_all c (buf @ concat chs)) = m # q"
  shows "\<exists>l'. link_read c buf chs = (Some (Inr m), l') \<and> \<not> raw (codec l') \<and> link_queue l' = q"
  using assms
proof (induction chs arbitrary: c buf)
  case Nil
  obtain r c' buf' where d: "decode c buf = (r, c', buf')" by (metis prod_cases3)
  then have "\<not> raw c'" using Nil(1) by (simp add: decode_raw)
  then show ?case using Nil d
    by (auto simp: link_read.simps [of c buf] decode_all.simps [of c buf] link_queue_def split: sum.splits option.splits prod.splits)
next
  case (Cons ch chs)
  let ?rest = "ch @ concat chs"
  obtain r c' buf' where d: "decode c buf = (r, c', buf')" by (metis prod_cases3)
  have r': "\<not> raw c'" using Cons.prems(1) d by (simp add: decode_raw)
  show ?case
  proof (cases "r = Inr None")
    case True
    then have "decode c (buf @ ?rest) = decode c' (buf' @ ?rest)"
      using decode_more [OF Cons.prems(1)] d by simp
    then have "decode_all c (buf @ ?rest) = decode_all c' (buf' @ ?rest)"
      unfolding decode_all.simps [of c] decode_all.simps [of c'] by simp
    then show ?thesis using Cons.IH [OF r', of "buf' @ ch"] Cons.prems(2) d True by (simp add: link_read.simps [of c buf])
  next
    case False
    have "decode c (buf @ ?rest) = (r, c', buf' @ ?rest)" by (rule decode_append [OF Cons.prems(1) d False])
    then show ?thesis using Cons.prems(2) d False r'
      by (auto simp: link_read.simps [of c buf] decode_all.simps [of c "buf @ ?rest"] link_queue_def
          split: sum.splits option.splits prod.splits)
  qed
qed

interpretation chunked: fifo_sink "link_env sl op ne ck" link_queue "\<lambda>l. \<not> raw (codec l)" for sl op ne ck
proof
  fix l m q
  assume "\<not> raw (codec l)" "link_queue l = m # q"
  then show "\<exists>l'. fnext (link_env sl op ne ck) l = (Some (Inr m), l') \<and> \<not> raw (codec l') \<and> link_queue l' = q"
    using link_read_law by (simp add: link_env_def link_next_def link_queue_def)
qed

section \<open>Sealed frames\<close>

lemma link_env_simps [simp]: "seal (link_env sl op ne ck) = sl" "sopen (link_env sl op ne ck) = op"
  by (simp_all add: link_env_def)

lemma sealed_link: "sealed (link_env sl op ne ck) k c ms = sealed (pipe_env sl op ne ck) k c ms"
  by (simp add: sealed_def nonces_def get_nonce_def link_env_def pipe_env_def)

lemma pipe_wire: "pipe_good p \<Longrightarrow> wire p = frames (pipe_queue p) \<and> (\<forall>d \<in> set (pipe_queue p). fits codec_new d)"
  using pipe_queue_frames by (auto simp: pipe_good_def)

text \<open>Chunks that together are the bytes a sender wrote give the frames it wrote.\<close>

lemma link_frames:
  assumes "pipe_good p" "concat chunks = wire p"
  shows "link_queue (link_new chunks) = pipe_queue p"
  using pipe_wire [OF assms(1)] assms(2) decode_all_frames [of codec_new "pipe_queue p"]
  by (simp add: link_queue_def link_new_def frames_def)

text \<open>A fresh sender writes the frames of the sealed messages.\<close>

lemma sent_frames:
  assumes "\<forall>m \<in> set ms. \<forall>n. fits codec_new (sl m n k)" "key a = Some (k, c, r)" "unat c + length ms < 2 ^ 64" "inner a = pipe_new"
  obtains a' where "send_all (pipe_env sl op ne ck) a ms = Ret (Inr a')" "pipe_good (inner a')"
    "pipe_queue (inner a') = sealed (pipe_env sl op ne ck) k c ms" "wire (inner a') = frames (sealed (pipe_env sl op ne ck) k c ms)"
proof -
  have good: "pipe_good (inner a)" "pipe_queue (inner a) = []" by (simp_all add: assms(4))
  show ?thesis
    using coded.send_all_secured [OF good(1) assms(2,3), of sl op ne ck] assms(1) good(2) that pipe_wire by auto
qed

text \<open>One short message, for the witness.\<close>

lemma demo_frames: "frames (sealed (pipe_env tag_seal tag_open Little True) 7 0 [[1, 2]]) = [16, 1, 7, 1, 2]"
proof -
  have "header (Suc (Suc (Suc (Suc 0)))) = [16]" by code_simp
  moreover have "get_nonce (pipe_env tag_seal tag_open Little True) 1 ! 0 = 1"
    by (simp add: get_nonce_def pipe_env_def nth_append nth_to_le_bytes to_ne_bytes_def)
  ultimately show ?thesis by (simp add: frames_def tag_seal_def)
qed

text \<open>What one end wrote is received by the other, when the bytes in between went through the relay.\<close>

lemma relayed_receive:
  assumes box: "\<forall>m n. op (sl m n k) n k = Some m"
    and keys: "key b = Some (k, t, c)" "unat c + length ms < 2 ^ 64"
    and sent: "pipe_good p" "pipe_queue p = sealed (pipe_env sl op ne ck) k c ms"
    and relay: "run_machine (server_step env) s es = Some (s', out)" "phase s = Relaying u req rsp x y" "x \<noteq> y"
      "\<forall>e \<in> set es. relay_goes_on e"
    and fed: "concat (concat (map peer_payload es)) = wire p"
    and cut: "concat chunks = concat (concat (map (sent_to x) out))" "inner b = link_new chunks"
  obtains b' where "recv_all (link_env sl op ne ck) b (length ms) = Ret (Some (ms, b'))"
    "key b' = Some (k, t, c + word_of_nat (length ms))" "link_queue (inner b') = []"
proof -
  have "concat chunks = wire p" using relay_run [OF relay] fed cut(1) by simp
  from link_frames [OF sent(1) this] have queue: "link_queue (inner b) = sealed (link_env sl op ne ck) k c ms @ []"
    by (simp add: cut(2) sent(2) sealed_link)
  have "\<not> raw (codec (inner b))" by (simp add: cut(2) link_new_def)
  from chunked.recv_all_secured [OF this keys queue] box that show ?thesis by auto
qed

end
