(* ===== verification/Spec2Isabelle.thy ===== *)
theory Spec2Isabelle
  imports Codec_Tests Addr_Mangle Net_Util Udp_Socket Server_Props Server_Spec Job_Machine Config_Durable Config_Peers Quic Remote_Transfer Relay_Channel
begin

text \<open>
  A verification library for the RustDesk demo server, \<open>src/main.rs\<close>, and the library it shares with the
  clients, \<open>libs/hbb_common\<close>.

  The program. Clients register their id with the server over UDP; a client that wants to reach another
  asks the server over TCP, the server tells the other by a datagram to come to the relay, and when both have
  connected, the server copies bytes between the two connections. The library gives both sides the frame
  codec, the (encrypted) TCP stream over it, the UDP socket, the address encoding, compression, file transfer jobs,
  the settings of a client, and an unfinished QUIC transport.

  \<^item> \<open>Rust_Prelude\<close>: machine integers, byte orders, panics as values (\<open>outcome\<close>), errors as \<open>Inl\<close>.
    \<open>Incremental\<close>: the contract between an incremental decoder and the transport that feeds it.
    \<open>Machine\<close>: machines that consume events, and four contracts that lift a fact about a step to all
    runs (an invariant, a view of the state, a ledger of what comes in and goes out, a refinement of another machine).
  \<^item> \<open>Bytes_Codec\<close>: \<open>bytes_codec.rs\<close>. Any frames, cut into any chunks, come out again; limits and errors.
    \<open>Codec_Tests\<close>: the unit tests of that file, and that the model passes them.
  \<^item> \<open>Framed_Stream\<close>: \<open>tcp.rs\<close>. \<open>fifo_source\<close>, \<open>fifo_sink\<close> and, of both, \<open>fifo_link\<close> are what the stream needs of the framed
    transport; the codec's own \<open>encode\<close> and \<open>decode\<close> provide them (\<open>pipe_env\<close>). Secured streams deliver in order,
    do not repeat nonces, hand out only what authenticates.
  \<^item> \<open>Udp_Socket\<close>, \<open>Net_Util\<close>, \<open>Addr_Mangle\<close>, \<open>Compress\<close>: \<open>udp.rs\<close>, the helpers and \<open>AddrMangle\<close> of \<open>lib.rs\<close>,
    \<open>compress.rs\<close>. Round trips with their exact limits, and which inputs panic.
  \<^item> \<open>Rendezvous_Proto\<close>, \<open>Server\<close>, \<open>Server_Props\<close>: \<open>rendezvous.proto\<close> and \<open>main.rs\<close>. The async code is a state
    machine between its await points: \<open>phase\<close> says what it awaits, \<open>server_step\<close> runs to the next await, and
    \<open>server_trans\<close> is the same as a relation. Registrations, datagrams, the relay, connections, progress, and the panic.
    \<open>Server_Spec\<close>: the server implements a broker over requests and a table of addresses, without streams or bytes.
  \<^item> \<open>Relay_Channel\<close>: bytes that arrive in chunks through the relay are a \<open>fifo_sink\<close> for the stream that reads them.
  \<^item> \<open>Paths\<close>, \<open>Disk\<close>: the parts of \<open>std::path\<close> and of the file system the code uses; a disk maps
    names to inodes and carries a script of faults and short reads.
  \<^item> \<open>File_Proto\<close>, \<open>Dir_Walk\<close>, \<open>File_Transfer\<close>, \<open>File_Transfer_Props\<close>, \<open>File_Errors\<close>: \<open>message.proto\<close> (its file part) and
    \<open>fs.rs\<close>. Listings, removal of empty directories, a job read in blocks and written back, what errors do.
    \<open>Job_Machine\<close>: a job under any sequence of its operations, with failures: its files stay sound, its progress is counted.
  \<^item> \<open>Config_Paths\<close>, \<open>Config\<close>, \<open>Config_Props\<close>, \<open>Config_Durable\<close>, \<open>Config_Peers\<close>: \<open>config.rs\<close>. The two records behind locks
    and their files are the state \<open>settings\<close>; the locales \<open>setting\<close> and \<open>generated_setting\<close> are the contracts of
    setters and of values made on demand. Durability, secrets, ids, the choice of the server, peers' files.
  \<^item> \<open>Quic\<close>: the endpoints and \<open>Connection\<close> of \<open>quic.rs\<close>, its accept loop and its channel.
  \<^item> \<open>Remote_Transfer\<close> and this theory: a file transfer from disk to disk through jobs, messages, encryption and frames,
    directly and through the relay, and an encrypted conversation of two clients through the relay.

  Parameters. Code that is not in the repository is an argument: generated parsers and serialisers, zstd, sodium's
  secret box, \<open>Framed\<close> and \<open>UdpFramed\<close> (for the stream, also given by the codec), socket and resolver calls,
  \<open>confy\<close>, the system's directories, random draws, clocks, and the order in which a hash map is iterated. What is
  relied on is a named premise: \<open>good_zstd\<close> (a block decompresses to what was compressed, within the capacity),
  \<open>sopen\<close> opens what \<open>seal\<close> sealed, \<open>reliable\<close> and \<open>peers_kept\<close> (a load gives what was stored, storing
  one file leaves another alone), a message parses to what was serialised. Each has a concrete instance.

  Bounds. Integers keep their width: \<open>usize\<close> has 64 bits, additions in debug builds panic (\<open>checks\<close>) and wrap otherwise,
  so properties of counters hold up to \<open>2^64\<close> messages, of a job up to \<open>2^31\<close> files. Loops that read
  until the end have termination proofs; copying is run for exactly the number of blocks the lengths
  call for, \<open>ceil (n / 128 KiB) + 1\<close> for a file of \<open>n\<close> bytes, and shown to be finished then. No definition uses
  fuel in place of a source loop; directory trees are finite data.

  Locks are taken for a whole operation, so settings change one operation at a time; the interleavings that
  exist are those of \<open>select\<close> in the server and of the tasks of a QUIC connection, which are events.

  Not modelled. Logging and printing have no effect
  on the state. \<open>sleep\<close> and \<open>timeout\<close> wrap tokio. Of the branches for other systems only Linux is
  taken. The messages of \<open>message.proto\<close> outside file transfer are not used by this code. \<open>build.rs\<close> calls the protobuf generator. Which icon is embedded is data.
\<close>

section \<open>A file transfer end to end\<close>

text \<open>C7: A file transfer over an encrypted connection copies: when the reading end serves its job with
  \<open>handle_read_jobs\<close>, every message is serialised, sealed, framed, received, opened and parsed, and the
  other end writes the blocks, then after the number of rounds the lengths call for one more round tells the other
  end that the job is done and drops it, and every file is at its final place with the content of its source.
  The job's messages use one position of the counters each.\<close>

theorem remote_transfer:
  assumes box: "\<forall>m n. op (sl m n k) n k = Some m"
    and fit: "\<forall>blk n. length (blk_data blk) \<le> BUF_SIZE \<longrightarrow> fits codec_new (sl (ser (new_block blk)) n k)"
      "\<forall>i j n. fits codec_new (sl (ser (new_done i j)) n k)"
    and gen: "\<forall>blk. unser (ser (new_block blk)) = Inr (new_block blk)" "\<forall>i j. unser (ser (new_done i j)) = Inr (new_done i j)"
    and senv: "senv = \<lparr>zcomp = zc, show_error = shw, send_msg = stream_send (pipe_env sl op ne ck) ser\<rparr>"
    and rounds: "rounds = (\<Sum>c\<leftarrow>cs. (length c + 131071) div 131072 + 1)"
    and ends: "good_zstd zc zd" "length cs < 2 ^ 31" "cs \<noteq> []" "at_file rj rd cs 0" "destination wj wd" "ready wj wd 0"
      "tj_file wj = None" "tj_file_num wj = 0" "tj_id wj = tj_id rj" "length (tj_files wj) = length cs"
    and chan: "in_step k c (rounds + 1) a b"
  shows "\<exists>rj' rd' wj' wd' a' b' a2 rd2 b2.
    remote_copy rounds senv zd (pipe_env sl op ne ck) unser (rj, rd) (wj, wd) a b = Some ((rj', rd'), (wj', wd'), a', b') \<and>
    handle_read_jobs senv [rj'] (Some a') rd' = (Inr (), [], Some a2, rd2) \<and>
    next_msg (pipe_env sl op ne ck) (b'\<lparr>inner := inner a2\<rparr>) =
      Ret (Some (Inr (ser (new_done (tj_id rj) (word_of_nat (length cs))))), b2) \<and>
    in_step k (c + word_of_nat rounds + 1) 0 (a2\<lparr>inner := inner b2\<rparr>) b2 \<and>
    (\<forall>j < length cs. published wj' (modify_time wj' wd') j (cs ! j))"
proof -
  obtain rj' rd' wj' wd' where run: "copy_blocks rounds zc zd (rj, rd) (wj, wd) = Some ((rj', rd'), (wj', wd'))"
      "job_read zc rj' rd' = (Inr None, rj'\<lparr>tj_file := None\<rparr>, rd')"
      "tj_id rj' = tj_id rj" "tj_file_num rj' = word_of_nat (length cs)"
      "\<forall>j < length cs. published wj' (modify_time wj' wd') j (cs ! j)"
    by (rule whole_copy [OF ends rounds])
  obtain a' b' where remote: "remote_copy rounds senv zd (pipe_env sl op ne ck) unser (rj, rd) (wj, wd) a b =
      Some ((rj', rd'), (wj', wd'), a', b')" "in_step k (c + word_of_nat rounds) (Suc 0) a' b'"
    using remote_copy_blocks [where sl = sl and op = op and k = k and ser = ser and parse = unser and shw = shw and ne = ne and ck = ck,
        OF box fit(1) gen(1) run(1) chan [unfolded One_nat_def]] unfolding senv by blast
  obtain a2 b2 where fin: "stream_send (pipe_env sl op ne ck) ser (Some a') (new_done (tj_id rj') (tj_file_num rj')) = (Inr (), Some a2)"
      "next_msg (pipe_env sl op ne ck) (b'\<lparr>inner := inner a2\<rparr>) = Ret (Some (Inr (ser (new_done (tj_id rj') (tj_file_num rj')))), b2)"
      "in_step k (c + word_of_nat rounds + 1) 0 (a2\<lparr>inner := inner b2\<rparr>) b2"
    using one_message [where sl = sl and op = op and k = k and ser = ser and msg = "new_done (tj_id rj') (tj_file_num rj')" and
        ne = ne and ck = ck, OF box remote(2)] fit(2) by metis
  have serve: "handle_read_jobs senv [rj'] (Some a') rd' = (Inr (), [], Some a2, rd')"
    unfolding senv by (rule serve_done [OF run(2)]) (use fin(1) in simp)
  show ?thesis using run(5) remote(1) serve fin(2,3) unfolding run(3,4) by blast
qed

theorem remote_transfer_witness:
  "\<exists>rj' rd' wj' wd' a' b'.
     remote_copy 4 \<lparr>zcomp = store_c, show_error = (\<lambda>_. ''e''), send_msg = stream_send (pipe_env tag_seal tag_open Little True) demo_ser\<rparr>
       store_d (pipe_env tag_seal tag_open Little True) demo_unser (demo_job ''/s'', demo_disk) (demo_job ''/t'', empty_disk)
       (set_key (stream_from pipe_new) (7 :: u8)) (set_key (stream_from pipe_new) 7) = Some ((rj', rd'), (wj', wd'), a', b') \<and>
     published wj' (modify_time wj' wd') 0 [1, 2, 3] \<and> published wj' (modify_time wj' wd') 1 [4, 5, 6]"
proof -
  have box: "\<forall>m n. tag_open (tag_seal m n 7) n 7 = Some m" by (simp add: tag_open_def tag_seal_def)
  have four: "4 = (\<Sum>c\<leftarrow>[[1, 2, 3], [4, 5, 6 :: u8]]. (length c + 131071) div 131072 + 1)" by simp
  have jobs: "tj_file (demo_job ''/t'') = None" "tj_file_num (demo_job ''/t'') = 0" "tj_id (demo_job ''/t'') = tj_id (demo_job ''/s'')"
    "length (tj_files (demo_job ''/t'')) = length [[1, 2, 3], [4, 5, 6 :: u8]]"
    by (simp_all add: demo_job_def transfer_job_default_def)
  have chan: "in_step 7 0 (4 + 1) (set_key (stream_from pipe_new) 7) (set_key (stream_from pipe_new) 7)"
    by (simp add: in_step_def set_key_def stream_from_def)
  have codec: "\<forall>blk n. length (blk_data blk) \<le> BUF_SIZE \<longrightarrow> fits codec_new (tag_seal (demo_ser (new_block blk)) n 7)"
    "\<forall>i j n. fits codec_new (tag_seal (demo_ser (new_done i j)) n 7)"
    "\<forall>blk. demo_unser (demo_ser (new_block blk)) = Inr (new_block blk)" "\<forall>i j. demo_unser (demo_ser (new_done i j)) = Inr (new_done i j)"
    by (simp_all add: demo_ser_fits demo_unser_ser)
  have many: "length [[1, 2, 3], [4, 5, 6 :: u8]] < 2 ^ 31" "[[1, 2, 3], [4, 5, 6 :: u8]] \<noteq> []" by simp_all
  have two: "j < length [[1, 2, 3], [4, 5, 6 :: u8]]" if "j = 0 \<or> j = 1" for j using that by auto
  show ?thesis
    using remote_transfer [where op = tag_open and sl = tag_seal and ser = demo_ser and unser = demo_unser, OF box codec refl four good_store
        many demo_at_file demo_destination demo_ready jobs chan, of "\<lambda>_. ''e''" Little True] two
    by (metis nth_Cons_0 nth_Cons_Suc One_nat_def)
qed

section \<open>Messages through the relay\<close>

text \<open>C5: Two clients talk through the server: what one end of an encrypted connection sends is received by the other
  end, in order and unchanged, when its bytes go through the relay. The network may cut the bytes on both sides of
  the server in any way, the relay may carry the other direction and serve registrations in between, and the
  receiver reads from whatever chunks arrive; the server needs no key for it.\<close>

theorem relayed_channel:
  assumes box: "\<forall>m n. op (sl m n k) n k = Some m"
    and fit: "\<forall>m \<in> set ms. \<forall>n. fits codec_new (sl m n k)"
    and keys: "key a = Some (k, c, r)" "key b = Some (k, t, c)" "unat c + length ms < 2 ^ 64"
    and fresh: "inner a = pipe_new"
    and relay: "run_machine (server_step env) s es = Some (s', out)" "phase s = Relaying u req rsp x y" "x \<noteq> y"
      "\<forall>e \<in> set es. relay_goes_on e"
    and fed: "\<forall>a'. send_all (pipe_env sl op ne ck) a ms = Ret (Inr a') \<longrightarrow> concat (concat (map peer_payload es)) = wire (inner a')"
    and cut: "concat chunks = concat (concat (map (sent_to x) out))" "inner b = link_new chunks"
  shows "\<exists>a' b'. send_all (pipe_env sl op ne ck) a ms = Ret (Inr a') \<and>
    recv_all (link_env sl op ne ck) b (length ms) = Ret (Some (ms, b')) \<and>
    key b' = Some (k, t, c + word_of_nat (length ms)) \<and> link_queue (inner b') = [] \<and>
    (\<exists>u'. phase s' = Relaying u' req rsp x y)"
proof -
  obtain a' where a': "send_all (pipe_env sl op ne ck) a ms = Ret (Inr a')" "pipe_good (inner a')"
      "pipe_queue (inner a') = sealed (pipe_env sl op ne ck) k c ms"
    by (rule sent_frames [where sl = sl and k = k, OF fit keys(1,3) fresh])
  have "concat (concat (map peer_payload es)) = wire (inner a')" using fed a'(1) by blast
  from relayed_receive [where sl = sl and op = op and k = k, OF box keys(2,3) a'(2,3) relay this cut]
  obtain b' where "recv_all (link_env sl op ne ck) b (length ms) = Ret (Some (ms, b'))"
    "key b' = Some (k, t, c + word_of_nat (length ms))" "link_queue (inner b') = []" .
  then show ?thesis using a'(1) relay_run [OF relay] by blast
qed

theorem relayed_channel_witness:
  "\<exists>b'. recv_all (link_env tag_seal tag_open Little True) (set_key (stream_from (link_new [[16], [1, 7], [1, 2]])) (7 :: u8))
     (length [[1, 2 :: u8]]) = Ret (Some ([[1, 2]], b'))"
proof -
  let ?env = "pipe_env tag_seal tag_open Little True" and ?a = "set_key (stream_from pipe_new) (7 :: u8)"
  let ?s = "\<lparr>id_map = Map.empty, saved_stream = None, phase = Relaying False 1 2 3 (4 :: nat)\<rparr>"
  let ?es = "[PeerNext (Some (Inr [16, 1])), UdpNext None, StreamNext (Some (Inr [8])), PeerNext (Some (Inr [7, 1, 2]))]"
  have box: "\<forall>m n. tag_open (tag_seal m n 7) n 7 = Some m" by (simp add: tag_open_def tag_seal_def)
  have fit: "\<forall>m \<in> set [[1, 2]]. \<forall>n. fits codec_new (tag_seal m n 7)" by (simp add: fits_codec_new tag_seal_def)
  have keys: "key ?a = Some (7, 0, 0)" "key (set_key (stream_from (link_new [[16], [1, 7], [1, 2]])) (7 :: u8)) = Some (7, 0, 0)"
    "unat (0 :: u64) + length [[1, 2 :: u8]] < 2 ^ 64" "inner ?a = pipe_new"
    by (simp_all add: set_key_def stream_from_def)
  have run: "run_machine (server_step demo_env) ?s ?es =
      Some (?s, [TcpSendBytes 3 [16, 1], TcpSendBytes 4 [8], TcpSendBytes 3 [7, 1, 2]])"
    by (simp add: run_machine.simps(2) server_step.simps)
  have on: "phase ?s = Relaying False 1 2 3 4" "(3 :: nat) \<noteq> 4" "\<forall>e \<in> set ?es. relay_goes_on e" by simp_all
  obtain a' where "send_all ?env ?a [[1, 2]] = Ret (Inr a')" "wire (inner a') = [16, 1, 7, 1, 2]"
    using sent_frames [where sl = tag_seal and k = 7, OF fit keys(1,3,4)] demo_frames by metis
  then have fed: "\<forall>a'. send_all ?env ?a [[1, 2]] = Ret (Inr a') \<longrightarrow> concat (concat (map peer_payload ?es)) = wire (inner a')"
    by simp
  have cut: "concat [[16], [1, 7], [1, 2]] =
      concat (concat (map (sent_to (3 :: nat)) [TcpSendBytes 3 [16, 1], TcpSendBytes 4 [8], TcpSendBytes 3 [7, 1, 2]]))"
    "inner (set_key (stream_from (link_new [[16], [1, 7], [1, 2]])) (7 :: u8)) = link_new [[16], [1, 7], [1, 2]]"
    by (simp_all add: set_key_def stream_from_def)
  from relayed_channel [OF box fit keys run on fed cut] show ?thesis by blast
qed

section \<open>A file transfer through the relay\<close>

text \<open>A job served to its end puts the frames of its sealed blocks on the wire, and that it is done.\<close>

lemma served_frames:
  assumes fit: "\<forall>blk n. length (blk_data blk) \<le> BUF_SIZE \<longrightarrow> fits codec_new (sl (ser (new_block blk)) n k)"
      "\<forall>i j n. fits codec_new (sl (ser (new_done i j)) n k)"
    and keys: "key a = Some (k, c, r)" "unat c + Suc (length blks) < 2 ^ 64" "inner a = pipe_new"
    and blks: "\<forall>blk \<in> set blks. length (blk_data blk) \<le> BUF_SIZE"
    and read: "read_times (length blks) zc rj rd = (map (Inr \<circ> Some) blks, rj1, rd1)" "job_read zc rj1 rd1 = (Inr None, rj2, rd2)"
  obtains a' where "serve_rounds (Suc (length blks)) \<lparr>zcomp = zc, show_error = shw, send_msg = stream_send (pipe_env sl op ne ck) ser\<rparr>
      [rj] (Some a) rd = (Inr (), [], Some a', rd2)"
    "pipe_good (inner a')" "pipe_queue (inner a') = sealed (pipe_env sl op ne ck) k c
      (map (\<lambda>blk. ser (new_block blk)) blks @ [ser (new_done (tj_id rj2) (tj_file_num rj2))])"
proof -
  let ?ms = "map (\<lambda>blk. ser (new_block blk)) blks @ [ser (new_done (tj_id rj2) (tj_file_num rj2))]"
  have fits: "\<forall>m \<in> set ?ms. \<forall>n. fits codec_new (sl m n k)" using fit blks by auto
  have room: "unat c + length ?ms < 2 ^ 64" using keys(2) by simp
  obtain a' where "send_all (pipe_env sl op ne ck) a ?ms = Ret (Inr a')" "pipe_good (inner a')"
      "pipe_queue (inner a') = sealed (pipe_env sl op ne ck) k c ?ms"
    by (rule sent_frames [where sl = sl and k = k, OF fits keys(1) room keys(3)])
  then show ?thesis using serve_sends [OF read] that by blast
qed

text \<open>What the reading end has sent, and what comes of its blocks, when its job is over.\<close>

lemma transfer_served:
  assumes fit: "\<forall>blk n. length (blk_data blk) \<le> BUF_SIZE \<longrightarrow> fits codec_new (sl (ser (new_block blk)) n k)"
      "\<forall>i j n. fits codec_new (sl (ser (new_done i j)) n k)"
    and senv: "senv = \<lparr>zcomp = zc, show_error = shw, send_msg = stream_send (pipe_env sl op ne ck) ser\<rparr>"
    and rounds: "rounds = (\<Sum>c\<leftarrow>cs. (length c + 131071) div 131072 + 1)"
    and ends: "good_zstd zc zd" "length cs < 2 ^ 31" "cs \<noteq> []" "at_file rj rd cs 0" "destination wj wd" "ready wj wd 0"
      "tj_file wj = None" "tj_file_num wj = 0" "tj_id wj = tj_id rj" "length (tj_files wj) = length cs"
    and keys: "key a = Some (k, c, r)" "unat c + Suc rounds < 2 ^ 64" "inner a = pipe_new"
  obtains a' rd' blks wj' wd' where
    "serve_rounds (Suc rounds) senv [rj] (Some a) rd = (Inr (), [], Some a', rd')" "pipe_good (inner a')"
    "pipe_queue (inner a') = sealed (pipe_env sl op ne ck) k c
      (map (\<lambda>blk. ser (new_block blk)) blks @ [ser (new_done (tj_id rj) (word_of_nat (length cs)))])"
    "length blks = rounds" "write_blocks zd (wj, wd) blks = Some (wj', wd')"
    "\<forall>j < length cs. published wj' (modify_time wj' wd') j (cs ! j)"
proof -
  obtain rj' rd' wj' wd' where run: "copy_blocks rounds zc zd (rj, rd) (wj, wd) = Some ((rj', rd'), (wj', wd'))"
      "job_read zc rj' rd' = (Inr None, rj'\<lparr>tj_file := None\<rparr>, rd')"
      "tj_id rj' = tj_id rj" "tj_file_num rj' = word_of_nat (length cs)"
      "\<forall>j < length cs. published wj' (modify_time wj' wd') j (cs ! j)"
    by (rule whole_copy [OF ends rounds])
  obtain blks where blks: "length blks = rounds" "\<forall>blk \<in> set blks. length (blk_data blk) \<le> BUF_SIZE"
      "read_times rounds zc rj rd = (map (Inr \<circ> Some) blks, rj', rd')" "write_blocks zd (wj, wd) blks = Some (wj', wd')"
    by (rule copy_blocks_apart [OF run(1)])
  have ids: "tj_id (rj'\<lparr>tj_file := None\<rparr>) = tj_id rj" "tj_file_num (rj'\<lparr>tj_file := None\<rparr>) = word_of_nat (length cs)"
    using run(3,4) by simp_all
  obtain a' where "serve_rounds (Suc rounds) senv [rj] (Some a) rd = (Inr (), [], Some a', rd')" "pipe_good (inner a')"
      "pipe_queue (inner a') = sealed (pipe_env sl op ne ck) k c
        (map (\<lambda>blk. ser (new_block blk)) blks @ [ser (new_done (tj_id rj) (word_of_nat (length cs)))])"
    unfolding senv
    by (rule served_frames [where sl = sl and k = k and ser = ser, OF fit keys(1) _ keys(3) blks(2) _ run(2),
        unfolded blks(1) ids, OF keys(2) blks(3)])
  then show ?thesis using that blks(1,4) run(5) by blast
qed

text \<open>C3: Two clients transfer files through the server: one serves its job round after round over an encrypted
  connection to the relay, the server passes the bytes on, cut as the network pleases and with the other
  direction and registrations in between, the other client decodes, opens and parses what arrives and
  writes the blocks. After the number of rounds the lengths call for, and one more, the job is dropped, the
  receiver has got exactly the blocks and then one message that the job is done, and every file is at its
  final place with the content of its source.\<close>

theorem relayed_transfer:
  assumes box: "\<forall>m n. op (sl m n k) n k = Some m"
    and fit: "\<forall>blk n. length (blk_data blk) \<le> BUF_SIZE \<longrightarrow> fits codec_new (sl (ser (new_block blk)) n k)"
      "\<forall>i j n. fits codec_new (sl (ser (new_done i j)) n k)"
    and gen: "\<forall>blk. unser (ser (new_block blk)) = Inr (new_block blk)" "\<forall>i j. unser (ser (new_done i j)) = Inr (new_done i j)"
    and senv: "senv = \<lparr>zcomp = zc, show_error = shw, send_msg = stream_send (pipe_env sl op ne ck) ser\<rparr>"
    and rounds: "rounds = (\<Sum>c\<leftarrow>cs. (length c + 131071) div 131072 + 1)"
    and ends: "good_zstd zc zd" "length cs < 2 ^ 31" "cs \<noteq> []" "at_file rj rd cs 0" "destination wj wd" "ready wj wd 0"
      "tj_file wj = None" "tj_file_num wj = 0" "tj_id wj = tj_id rj" "length (tj_files wj) = length cs"
    and keys: "key a = Some (k, c, r)" "key b = Some (k, t, c)" "unat c + Suc rounds < 2 ^ 64" "inner a = pipe_new"
    and relay: "run_machine (server_step env) s es = Some (s', out)" "phase s = Relaying u req rsp x y" "x \<noteq> y"
      "\<forall>e \<in> set es. relay_goes_on e"
    and fed: "\<forall>a' rd'. serve_rounds (Suc rounds) senv [rj] (Some a) rd = (Inr (), [], Some a', rd') \<longrightarrow>
      concat (concat (map peer_payload es)) = wire (inner a')"
    and cut: "concat chunks = concat (concat (map (sent_to x) out))" "inner b = link_new chunks"
  shows "\<exists>a' rd' ms b' blks wj' wd'.
    serve_rounds (Suc rounds) senv [rj] (Some a) rd = (Inr (), [], Some a', rd') \<and>
    recv_all (link_env sl op ne ck) b (Suc rounds) = Ret (Some (ms, b')) \<and>
    map unser ms = map (\<lambda>blk. Inr (new_block blk)) blks @ [Inr (new_done (tj_id rj) (word_of_nat (length cs)))] \<and>
    write_blocks zd (wj, wd) blks = Some (wj', wd') \<and>
    (\<forall>j < length cs. published wj' (modify_time wj' wd') j (cs ! j))"
proof -
  obtain a' rd' blks wj' wd' where
    a': "serve_rounds (Suc rounds) senv [rj] (Some a) rd = (Inr (), [], Some a', rd')" "pipe_good (inner a')"
      "pipe_queue (inner a') = sealed (pipe_env sl op ne ck) k c
        (map (\<lambda>blk. ser (new_block blk)) blks @ [ser (new_done (tj_id rj) (word_of_nat (length cs)))])"
    and blks: "length blks = rounds" "write_blocks zd (wj, wd) blks = Some (wj', wd')"
      "\<forall>j < length cs. published wj' (modify_time wj' wd') j (cs ! j)"
    by (rule transfer_served [where sl = sl and k = k and ser = ser, OF fit senv rounds ends keys(1,3,4)])
  let ?ms = "map (\<lambda>blk. ser (new_block blk)) blks @ [ser (new_done (tj_id rj) (word_of_nat (length cs)))]"
  have many: "length ?ms = Suc rounds" using blks(1) by simp
  have room: "unat c + length ?ms < 2 ^ 64" unfolding many by (rule keys(3))
  have "concat (concat (map peer_payload es)) = wire (inner a')" using fed a'(1) by blast
  from relayed_receive [where sl = sl and op = op and k = k, OF box keys(2) room a'(2,3) relay this cut]
  obtain b' where "recv_all (link_env sl op ne ck) b (Suc rounds) = Ret (Some (?ms, b'))" unfolding many .
  moreover have "map unser ?ms = map (\<lambda>blk. Inr (new_block blk)) blks @ [Inr (new_done (tj_id rj) (word_of_nat (length cs)))]"
    using gen by simp
  ultimately show ?thesis using a'(1) blks(2,3) by blast
qed

theorem relayed_transfer_witness:
  "\<exists>a' rd' ms b' blks wj' wd'.
     serve_rounds 5 \<lparr>zcomp = store_c, show_error = (\<lambda>_. ''e''), send_msg = stream_send (pipe_env tag_seal tag_open Little True) demo_ser\<rparr>
       [demo_job ''/s''] (Some (set_key (stream_from pipe_new) (7 :: u8))) demo_disk = (Inr (), [], Some a', rd') \<and>
     run_machine (server_step demo_env) \<lparr>id_map = Map.empty, saved_stream = None, phase = Relaying False 1 2 3 (4 :: nat)\<rparr>
       [PeerNext (Some (Inr (wire (inner a'))))] =
       Some (\<lparr>id_map = Map.empty, saved_stream = None, phase = Relaying False 1 2 3 4\<rparr>, [TcpSendBytes 3 (wire (inner a'))]) \<and>
     recv_all (link_env tag_seal tag_open Little True) (set_key (stream_from (link_new [wire (inner a')])) 7) 5 = Ret (Some (ms, b')) \<and>
     write_blocks store_d (demo_job ''/t'', empty_disk) blks = Some (wj', wd') \<and>
     published wj' (modify_time wj' wd') 0 [1, 2, 3] \<and> published wj' (modify_time wj' wd') 1 [4, 5, 6]"
proof -
  let ?a = "set_key (stream_from pipe_new) (7 :: u8)"
    and ?s = "\<lparr>id_map = Map.empty, saved_stream = None, phase = Relaying False 1 2 3 (4 :: nat)\<rparr>"
    and ?senv = "\<lparr>zcomp = store_c, show_error = (\<lambda>_. ''e''), send_msg = stream_send (pipe_env tag_seal tag_open Little True) demo_ser\<rparr>"
  have box: "\<forall>m n. tag_open (tag_seal m n 7) n 7 = Some m" by (simp add: tag_open_def tag_seal_def)
  have codec: "\<forall>blk n. length (blk_data blk) \<le> BUF_SIZE \<longrightarrow> fits codec_new (tag_seal (demo_ser (new_block blk)) n 7)"
    "\<forall>i j n. fits codec_new (tag_seal (demo_ser (new_done i j)) n 7)"
    "\<forall>blk. demo_unser (demo_ser (new_block blk)) = Inr (new_block blk)" "\<forall>i j. demo_unser (demo_ser (new_done i j)) = Inr (new_done i j)"
    by (simp_all add: demo_ser_fits demo_unser_ser)
  have four: "4 = (\<Sum>c\<leftarrow>[[1, 2, 3], [4, 5, 6 :: u8]]. (length c + 131071) div 131072 + 1)" by simp
  have many: "length [[1, 2, 3], [4, 5, 6 :: u8]] < 2 ^ 31" "[[1, 2, 3], [4, 5, 6 :: u8]] \<noteq> []" by simp_all
  have jobs: "tj_file (demo_job ''/t'') = None" "tj_file_num (demo_job ''/t'') = 0" "tj_id (demo_job ''/t'') = tj_id (demo_job ''/s'')"
    "length (tj_files (demo_job ''/t'')) = length [[1, 2, 3], [4, 5, 6 :: u8]]"
    by (simp_all add: demo_job_def transfer_job_default_def)
  note ends = good_store many demo_at_file demo_destination demo_ready jobs
  have keys: "key ?a = Some (7, 0, 0)" "unat (0 :: u64) + Suc 4 < 2 ^ 64" "inner ?a = pipe_new"
    by (simp_all add: set_key_def stream_from_def)
  obtain a' rd' where served: "serve_rounds (Suc 4) ?senv [demo_job ''/s''] (Some ?a) demo_disk = (Inr (), [], Some a', rd')"
    by (rule transfer_served [where sl = tag_seal and ser = demo_ser, OF codec(1,2) refl four ends keys])
  let ?w = "wire (inner a')"
  let ?b = "set_key (stream_from (link_new [?w])) (7 :: u8)"
  have b: "key ?b = Some (7, 0, 0)" "inner ?b = link_new [?w]" by (simp_all add: set_key_def stream_from_def)
  have run: "run_machine (server_step demo_env) ?s [PeerNext (Some (Inr ?w))] = Some (?s, [TcpSendBytes 3 ?w])"
    by (simp add: run_machine.simps(2) server_step.simps)
  have on: "phase ?s = Relaying False 1 2 3 4" "(3 :: nat) \<noteq> 4" "\<forall>e \<in> set [PeerNext (Some (Inr ?w))]. relay_goes_on e" by simp_all
  have fed: "\<forall>a'' rd''. serve_rounds (Suc 4) ?senv [demo_job ''/s''] (Some ?a) demo_disk = (Inr (), [], Some a'', rd'') \<longrightarrow>
      concat (concat (map peer_payload [PeerNext (Some (Inr ?w))])) = wire (inner a'')"
    using served by simp
  have cut: "concat [?w] = concat (concat (map (sent_to (3 :: nat)) [TcpSendBytes 3 ?w]))" by simp
  have two: "j < length [[1, 2, 3], [4, 5, 6 :: u8]]" if "j = 0 \<or> j = 1" for j using that by auto
  have five: "Suc 4 = 5" by simp
  from relayed_transfer [where sl = tag_seal and op = tag_open and ser = demo_ser and unser = demo_unser,
      OF box codec refl four ends keys(1) b(1) keys(2,3) run on fed cut b(2)]
  show ?thesis using served run two unfolding five
    by (metis nth_Cons_0 nth_Cons_Suc One_nat_def prod.inject option.inject)
qed

end
